theory Spec2Isabelle
  imports Complex_Main "HOL-Library.Multiset"
begin

section \<open>Data model of the parallel router\<close>

text \<open>
  Net and routing-resource node identifiers are indices.  Values of the C++ type
  \<^verbatim>\<open>int\<close> are modelled as unbounded integers: grid coordinates and sink counts stay far
  below \<open>2 ^ 31\<close>.  Where the source mixes \<^verbatim>\<open>int\<close> and \<^verbatim>\<open>size_t\<close>, the conversion is
  written out (\<open>size_t_of_int\<close>, \<open>int_of_size_t\<close>), since a negative \<^verbatim>\<open>int\<close> becomes a huge
  \<^verbatim>\<open>size_t\<close>.
\<close>

type_synonym ParentNetId = nat
type_synonym RRNodeId = nat

record t_bb =
  xmin :: int
  xmax :: int
  ymin :: int
  ymax :: int

datatype Axis = X | Y

text \<open>
  Modelled from the spec: the declaration of \<^verbatim>\<open>Side\<close> is not among the sources.  The
  comment of \<^verbatim>\<open>which_side\<close> fixes it: 0 is left/up, 1 is right/down, and \<^verbatim>\<open>Side(b)\<close> converts
  a comparison result; \<^verbatim>\<open>!side\<close> is the other side.
\<close>

datatype Side = LEFT | RIGHT

definition Side_of_bool :: "bool \<Rightarrow> Side" where
  "Side_of_bool b = (if b then RIGHT else LEFT)"

definition other_side :: "Side \<Rightarrow> Side" where
  "other_side sd = (case sd of LEFT \<Rightarrow> RIGHT | RIGHT \<Rightarrow> LEFT)"

text \<open>
  Modelled from the spec: \<^verbatim>\<open>VirtualNet\<close> and \<^verbatim>\<open>NetResultFlags\<close> are declared in headers
  that are not among the sources.  A virtual net is the pair of a net and a clipped
  bounding box; the result flags are the three booleans of the connection-router
  interface, all false in a default-constructed value.
\<close>

record VirtualNet =
  net_id :: ParentNetId
  clipped_bb :: t_bb

record NetResultFlags =
  success :: bool
  was_rerouted :: bool
  retry_with_full_bb :: bool

definition default_flags :: NetResultFlags where
  "default_flags = \<lparr>success = False, was_rerouted = False, retry_with_full_bb = False\<rparr>"

text \<open>
  The part of a route tree the parallel router reads: its root and the sink indices
  already reached and still remaining.  Sink indices are 1-based; index 0 of
  \<^verbatim>\<open>net_rr_terminals\<close> is the source.
\<close>

record RouteTree =
  root_inode :: RRNodeId
  reached_isinks :: "int list"
  remaining_isinks :: "int list"

datatype failure = Assertion_failed | Division_by_zero | Index_out_of_range | Null_dereference

definition MIN_DECOMP_BIN_WIDTH :: int where
  "MIN_DECOMP_BIN_WIDTH = 5"

definition MAX_DECOMP_REROUTE :: nat where
  "MAX_DECOMP_REROUTE = 5"

definition size_t_of_int :: "int \<Rightarrow> int" where
  "size_t_of_int i = i mod 2 ^ 64"

definition int_of_size_t :: "int \<Rightarrow> int" where
  "int_of_size_t v = (v + 2 ^ 31) mod 2 ^ 32 - 2 ^ 31"

text \<open>
  The read-only surroundings of one routing iteration: netlist, device, router options,
  and the external collaborators (connection router, routing-resource setup, criticality
  sort).  The collaborators see the route tree of the net and an opaque value \<open>'w\<close>
  standing for the shared routing-resource state (occupancy, costs, connection
  bookkeeping); they receive bounding boxes by value.
\<close>

record 'w env =
  netlist_nets :: "ParentNetId list"
  net_num_sinks :: "ParentNetId \<Rightarrow> nat"
  net_is_ignored :: "ParentNetId \<Rightarrow> bool"
  net_is_global :: "ParentNetId \<Rightarrow> bool"
  net_is_fixed :: "ParentNetId \<Rightarrow> bool"
  net_rr_terminals :: "ParentNetId \<Rightarrow> RRNodeId list"
  node_xlow :: "RRNodeId \<Rightarrow> int"
  node_ylow :: "RRNodeId \<Rightarrow> int"
  grid_width :: int
  grid_height :: int
  log2_ceil_num_workers :: int
  two_stage_clock_routing :: bool
  budgeting_if_set :: bool
  worst_negative_slack :: real
  should_route_net :: "ParentNetId \<Rightarrow> RouteTree option \<Rightarrow> 'w \<Rightarrow> bool"
  setup_routing_resources :: "ParentNetId \<Rightarrow> RouteTree option \<Rightarrow> 'w \<Rightarrow> RouteTree option \<times> 'w"
  sort_by_criticality :: "ParentNetId \<Rightarrow> int list \<Rightarrow> int list"
  timing_driven_route_net ::
    "ParentNetId \<Rightarrow> t_bb \<Rightarrow> RouteTree option \<Rightarrow> 'w \<Rightarrow> NetResultFlags \<times> RouteTree option \<times> 'w"
  timing_driven_route_sink ::
    "ParentNetId \<Rightarrow> int \<Rightarrow> t_bb \<Rightarrow> RouteTree \<Rightarrow> 'w \<Rightarrow> NetResultFlags \<times> RouteTree \<times> 'w"

text \<open>The state that one iteration mutates.\<close>

record 'w state =
  route_bb :: "ParentNetId \<Rightarrow> t_bb"
  route_trees :: "ParentNetId \<Rightarrow> RouteTree option"
  net_is_routed :: "ParentNetId \<Rightarrow> bool"
  budgeting_should_reroute :: "ParentNetId \<Rightarrow> bool"
  decomp_retries :: "ParentNetId \<Rightarrow> nat"
  nets_to_retry :: "ParentNetId list"
  rr_state :: 'w

section \<open>Decomposition eligibility\<close>

text \<open>
  \<^verbatim>\<open>is_worth_decomposing\<close>.  The two divisions by a bin count trap when the count is 0,
  that is when the bounding box is narrower than \<open>MIN_DECOMP_BIN_WIDTH\<close>.  The sink-count
  test reads the size of \<^verbatim>\<open>net_rr_terminals[net_id]\<close>, which holds the source too.
\<close>

definition is_worth_decomposing ::
  "'w env \<Rightarrow> 'w state \<Rightarrow> ParentNetId \<Rightarrow> int \<Rightarrow> Axis \<Rightarrow> failure + bool" where
  "is_worth_decomposing e s n cutline_pos axis =
    (let bb = route_bb s n;
         W = size_t_of_int (xmax bb - xmin bb + 1);
         H = size_t_of_int (ymax bb - ymin bb + 1);
         bins_x = int_of_size_t (W div MIN_DECOMP_BIN_WIDTH);
         bins_y = int_of_size_t (H div MIN_DECOMP_BIN_WIDTH)
     in if size_t_of_int bins_x = 0 \<or> size_t_of_int bins_y = 0 then Inl Division_by_zero
        else
          let bin_width_x = W div size_t_of_int bins_x + 1;
              bin_width_y = H div size_t_of_int bins_y + 1
          in if W < bin_width_x \<or> H < bin_width_y then Inr False
             else if axis = X \<and> xmax bb - cutline_pos < int_of_size_t bin_width_x then Inr False
             else if axis = X \<and> cutline_pos - xmin bb + 1 < int_of_size_t bin_width_y then Inr False
             else if axis \<noteq> X \<and> ymax bb - cutline_pos < int_of_size_t bin_width_x then Inr False
             else if axis \<noteq> X \<and> cutline_pos - ymin bb + 1 < int_of_size_t bin_width_y then Inr False
             else
               let n_samples = size_t_of_int (max (2 * (bins_x + bins_y) - 4) 4)
               in if int (length (net_rr_terminals e n)) \<le> n_samples + 2 then Inr False
                  else Inr True)"

text \<open>
  \<^verbatim>\<open>should_decompose_net\<close>.  The level is a \<^verbatim>\<open>size_t\<close>, so the right-hand side of the first
  comparison is converted to \<^verbatim>\<open>size_t\<close> as well.
\<close>

definition should_decompose_net ::
  "'w env \<Rightarrow> 'w state \<Rightarrow> ParentNetId \<Rightarrow> nat \<Rightarrow> int \<Rightarrow> Axis \<Rightarrow> failure + bool" where
  "should_decompose_net e s n level cutline_pos axis =
    (if int level > size_t_of_int (log2_ceil_num_workers e - 1) then Inr False
     else if net_is_global e n \<and> two_stage_clock_routing e then Inr False
     else if decomp_retries s n \<ge> MAX_DECOMP_REROUTE then Inr False
     else case is_worth_decomposing e s n cutline_pos axis of
            Inl f \<Rightarrow> Inl f
          | Inr b \<Rightarrow> if \<not> b then Inr False else Inr True)"

section \<open>Partition tree\<close>

text \<open>
  \<^verbatim>\<open>PartitionTreeNode\<close>.  The children are owning pointers, null when absent.  The field
  \<^verbatim>\<open>virtual_nets\<close> is the one the dispatcher pushes decomposed halves into.  A node made by
  \<^verbatim>\<open>std::make_unique<PartitionTreeNode>()\<close> has the default field values.
\<close>

datatype PartitionTreeNode =
  PartitionTreeNode
    (nets: "ParentNetId list")
    (left: "PartitionTreeNode option")
    (right: "PartitionTreeNode option")
    (is_routable: bool)
    (rerouted_nets: "ParentNetId list")
    (cutline_axis: Axis)
    (cutline_pos: int)
    (virtual_nets: "VirtualNet list")

definition INT_MAX :: int where
  "INT_MAX = 2147483647"

definition bb_min :: "Axis \<Rightarrow> t_bb \<Rightarrow> int" where
  "bb_min axis bb = (if axis = X then xmin bb else ymin bb)"

definition bb_max :: "Axis \<Rightarrow> t_bb \<Rightarrow> int" where
  "bb_max axis bb = (if axis = X then xmax bb else ymax bb)"

text \<open>
  The two inner loops over one lookup array: \<^verbatim>\<open>for (x = start; x < W; x++) a[x] += v\<close> and
  \<^verbatim>\<open>for (x = 0; x < end; x++) a[x] += v\<close>.  The start is never negative and the end never
  exceeds \<open>W\<close>, so every access is in range.
\<close>

definition add_from :: "int \<Rightarrow> int \<Rightarrow> int list \<Rightarrow> int list" where
  "add_from start v a = map (\<lambda>(x, t). if start \<le> int x then t + v else t) (enumerate 0 a)"

definition add_below :: "int \<Rightarrow> int \<Rightarrow> int list \<Rightarrow> int list" where
  "add_below end v a = map (\<lambda>(x, t). if int x < end then t + v else t) (enumerate 0 a)"

text \<open>
  One net's contribution to the lookups of one axis of the region \<open>[lo, hi)\<close>; the source
  treats both axes in the same pass over the nets, with the same code for each.
\<close>

definition accumulate_net ::
  "'w env \<Rightarrow> 'w state \<Rightarrow> Axis \<Rightarrow> int \<Rightarrow> int \<Rightarrow> ParentNetId \<Rightarrow> int list \<times> int list \<Rightarrow> int list \<times> int list" where
  "accumulate_net e s axis lo hi n tot =
    (let bb = route_bb s n;
         fanouts = int (net_num_sinks e n);
         start = max lo (bb_min axis bb) - lo;
         end = min (bb_max axis bb + 1) hi - lo
     in (add_from start fanouts (fst tot), add_below end fanouts (snd tot)))"

definition total_lookup ::
  "'w env \<Rightarrow> 'w state \<Rightarrow> Axis \<Rightarrow> int \<Rightarrow> int \<Rightarrow> ParentNetId list \<Rightarrow> int list \<times> int list" where
  "total_lookup e s axis lo hi ns =
    fold (accumulate_net e s axis lo hi) ns
      (replicate (nat (hi - lo)) 0, replicate (nat (hi - lo)) 0)"

text \<open>The body of a scan loop, on the triple \<open>(best_score, best_pos, best_axis)\<close>.\<close>

definition scan_step ::
  "Axis \<Rightarrow> int \<Rightarrow> int list \<times> int list \<Rightarrow> nat \<Rightarrow> int \<times> int \<times> Axis \<Rightarrow> int \<times> int \<times> Axis" where
  "scan_step axis origin tot x best =
    (let max_before = fst tot ! (length (fst tot) - 1);
         max_after = snd tot ! 0;
         before = fst tot ! x;
         after = snd tot ! x
     in if before = max_before \<or> after = max_after then best
        else let score = \<bar>before - after\<bar>
             in if score < fst best then (score, origin + int x, axis) else best)"

definition scan_axis ::
  "Axis \<Rightarrow> int \<Rightarrow> int list \<times> int list \<Rightarrow> int \<times> int \<times> Axis \<Rightarrow> int \<times> int \<times> Axis" where
  "scan_axis axis origin tot best = fold (scan_step axis origin tot) [0..<length (fst tot)] best"

definition choose_cutline ::
  "'w env \<Rightarrow> 'w state \<Rightarrow> ParentNetId list \<Rightarrow> int \<Rightarrow> int \<Rightarrow> int \<Rightarrow> int \<Rightarrow> int \<times> int \<times> Axis" where
  "choose_cutline e s ns x1 y1 x2 y2 =
    scan_axis Y y1 (total_lookup e s Y y1 y2 ns)
      (scan_axis X x1 (total_lookup e s X x1 x2 ns) (INT_MAX, - 1, X))"

text \<open>
  The loop that sorts the nets of a node into left, right and crossing ones, for either
  axis; a net that fits none of the three tests hits \<^verbatim>\<open>VTR_ASSERT(false)\<close>.
\<close>

fun partition_nets ::
  "'w state \<Rightarrow> Axis \<Rightarrow> int \<Rightarrow> ParentNetId list
    \<Rightarrow> failure + (ParentNetId list \<times> ParentNetId list \<times> ParentNetId list)" where
  "partition_nets s axis best_pos [] = Inr ([], [], [])"
| "partition_nets s axis best_pos (n # ns) =
    (let lo = bb_min axis (route_bb s n); hi = bb_max axis (route_bb s n)
     in if \<not> (lo < best_pos \<and> hi < best_pos) \<and> \<not> (lo > best_pos \<and> hi > best_pos)
           \<and> \<not> (lo \<le> best_pos \<and> hi \<ge> best_pos)
        then Inl Assertion_failed
        else case partition_nets s axis best_pos ns of
               Inl f \<Rightarrow> Inl f
             | Inr (left_nets, right_nets, my_nets) \<Rightarrow>
                 if lo < best_pos \<and> hi < best_pos then Inr (n # left_nets, right_nets, my_nets)
                 else if lo > best_pos \<and> hi > best_pos then Inr (left_nets, n # right_nets, my_nets)
                 else Inr (left_nets, right_nets, n # my_nets))"

definition leaf_node :: "ParentNetId list \<Rightarrow> PartitionTreeNode" where
  "leaf_node ns = PartitionTreeNode ns None None False [] X (- 1) []"

text \<open>
  \<^verbatim>\<open>PartitionTree::build_helper\<close>.  A null result is \<open>None\<close>; a failed \<^verbatim>\<open>VTR_ASSERT\<close> is
  \<open>Inl Assertion_failed\<close>.  The arguments of the four recursive calls are those of the
  call sites, in their order \<open>(x1, y1, x2, y2)\<close>.
\<close>

function build_helper ::
  "'w env \<Rightarrow> 'w state \<Rightarrow> ParentNetId list \<Rightarrow> int \<Rightarrow> int \<Rightarrow> int \<Rightarrow> int
    \<Rightarrow> failure + PartitionTreeNode option" where
  "build_helper e s ns x1 y1 x2 y2 =
    (if ns = [] then Inr None
     else if \<not> (x2 - x1 > 0 \<and> y2 - y1 > 0) then Inl Assertion_failed
     else
       let best = choose_cutline e s ns x1 y1 x2 y2;
           best_pos = fst (snd best);
           best_axis = snd (snd best)
       in if best_pos = - 1 then Inr (Some (leaf_node ns))
          else if best_axis = X then
            (case partition_nets s X best_pos ns of
               Inl f \<Rightarrow> Inl f
             | Inr parts \<Rightarrow>
                 (case build_helper e s (fst parts) x1 y1 best_pos y2 of
                    Inl f \<Rightarrow> Inl f
                  | Inr l \<Rightarrow>
                      (case build_helper e s (fst (snd parts)) best_pos y2 x2 y2 of
                         Inl f \<Rightarrow> Inl f
                       | Inr r \<Rightarrow>
                           Inr (Some (PartitionTreeNode (snd (snd parts)) l r False []
                                        best_axis best_pos [])))))
          else
            (case partition_nets s Y best_pos ns of
               Inl f \<Rightarrow> Inl f
             | Inr parts \<Rightarrow>
                 (case build_helper e s (fst parts) x1 best_pos x2 y2 of
                    Inl f \<Rightarrow> Inl f
                  | Inr l \<Rightarrow>
                      (case build_helper e s (fst (snd parts)) x1 y1 x2 best_pos of
                         Inl f \<Rightarrow> Inl f
                       | Inr r \<Rightarrow>
                           Inr (Some (PartitionTreeNode (snd (snd parts)) l r False []
                                        best_axis best_pos []))))))"
  by pat_completeness auto

text \<open>The constructor \<^verbatim>\<open>PartitionTree(netlist)\<close>: the root built over the whole device.\<close>

definition PartitionTree :: "'w env \<Rightarrow> 'w state \<Rightarrow> failure + PartitionTreeNode option" where
  "PartitionTree e s = build_helper e s (netlist_nets e) 0 0 (grid_width e) (grid_height e)"

text \<open>Quantities of the builder that the statements below refer to.\<close>

definition net_start :: "'w state \<Rightarrow> Axis \<Rightarrow> int \<Rightarrow> ParentNetId \<Rightarrow> int" where
  "net_start s axis lo n = max lo (bb_min axis (route_bb s n)) - lo"

definition net_end :: "'w state \<Rightarrow> Axis \<Rightarrow> int \<Rightarrow> int \<Rightarrow> ParentNetId \<Rightarrow> int" where
  "net_end s axis lo hi n = min (bb_max axis (route_bb s n) + 1) hi - lo"

definition cut_survives :: "int list \<times> int list \<Rightarrow> nat \<Rightarrow> bool" where
  "cut_survives tot x =
    (fst tot ! x \<noteq> fst tot ! (length (fst tot) - 1) \<and> snd tot ! x \<noteq> snd tot ! 0)"

section \<open>Routing one net\<close>

definition should_really_route_net :: "'w env \<Rightarrow> 'w state \<Rightarrow> ParentNetId \<Rightarrow> bool" where
  "should_really_route_net e s n =
    (let reroute_for_hold =
           (if budgeting_if_set e
            then budgeting_should_reroute s n \<and> worst_negative_slack e \<noteq> 0
            else False)
     in if net_is_fixed e n then False
        else if net_is_ignored e n then False
        else if \<not> reroute_for_hold \<and> \<not> should_route_net e n (route_trees s n) (rr_state s)
        then False
        else True)"

text \<open>
  \<^verbatim>\<open>try_parallel_route_net\<close>.  The call of \<^verbatim>\<open>timing_driven_route_net\<close> may change the route
  tree of the net and the shared routing-resource state.
\<close>

definition try_parallel_route_net ::
  "'w env \<Rightarrow> ParentNetId \<Rightarrow> nat \<Rightarrow> 'w state \<Rightarrow> NetResultFlags \<times> 'w state" where
  "try_parallel_route_net e n level s =
    (if \<not> should_really_route_net e s n then (default_flags\<lparr>success := True\<rparr>, s)
     else
       case timing_driven_route_net e n (route_bb s n) (route_trees s n) (rr_state s) of
         (flags, tree', w') \<Rightarrow>
           let s1 = s\<lparr>route_trees := (route_trees s)(n := tree'), rr_state := w'\<rparr>;
               s2 = (if success flags
                     then s1\<lparr>net_is_routed := (net_is_routed s1)(n := True)\<rparr>
                     else s1)
           in (flags\<lparr>was_rerouted := True\<rparr>, s2))"

section \<open>Net decomposition\<close>

definition which_side :: "'w env \<Rightarrow> RRNodeId \<Rightarrow> int \<Rightarrow> Axis \<Rightarrow> Side" where
  "which_side e inode cut_pos axis =
    (if axis = X then Side_of_bool (node_xlow e inode > cut_pos)
     else Side_of_bool (node_ylow e inode > cut_pos))"

text \<open>
  \<^verbatim>\<open>clip_to_side\<close>.  The four tests of the source cover both axes and both sides, so its
  final \<^verbatim>\<open>VTR_ASSERT_MSG(false, "Unreachable")\<close> has no input.
\<close>

definition clip_to_side :: "t_bb \<Rightarrow> Axis \<Rightarrow> int \<Rightarrow> Side \<Rightarrow> t_bb" where
  "clip_to_side bb axis cut_pos side =
    (if axis = X \<and> side = LEFT then bb\<lparr>xmax := cut_pos\<rparr>
     else if axis = X \<and> side = RIGHT then bb\<lparr>xmin := cut_pos + 1\<rparr>
     else if axis = Y \<and> side = LEFT then bb\<lparr>ymax := cut_pos\<rparr>
     else bb\<lparr>ymin := cut_pos + 1\<rparr>)"

definition make_decomposed_pair ::
  "'w env \<Rightarrow> 'w state \<Rightarrow> ParentNetId \<Rightarrow> int \<Rightarrow> Axis \<Rightarrow> failure + VirtualNet \<times> VirtualNet" where
  "make_decomposed_pair e s n cut_pos cut_axis =
    (case route_trees s n of
       None \<Rightarrow> Inl Null_dereference
     | Some tree \<Rightarrow>
         let source_side = which_side e (root_inode tree) cut_pos cut_axis;
             bb = route_bb s n;
             source_half = \<lparr>net_id = n,
                            clipped_bb = clip_to_side bb cut_axis cut_pos source_side\<rparr>;
             sink_half = \<lparr>net_id = n,
                          clipped_bb = clip_to_side bb cut_axis cut_pos
                                         (other_side source_side)\<rparr>
         in if source_side = RIGHT then Inr (sink_half, source_half)
            else Inr (source_half, sink_half))"

text \<open>\<^verbatim>\<open>net_rr_terminals[net_id][isink]\<close>, with the range check that the index needs.\<close>

definition rr_terminal :: "'w env \<Rightarrow> ParentNetId \<Rightarrow> int \<Rightarrow> failure + RRNodeId" where
  "rr_terminal e n isink =
    (if 0 \<le> isink \<and> nat isink < length (net_rr_terminals e n)
     then Inr (net_rr_terminals e n ! nat isink)
     else Inl Index_out_of_range)"

text \<open>
  The sampling grid of \<^verbatim>\<open>get_decomposition_isinks\<close>: bin counts and bin widths, all
  \<^verbatim>\<open>size_t\<close>.  \<open>samples\<close> is the two-dimensional array indexed \<open>[x][y]\<close>, with \<open>REACHED\<close> and
  \<open>NONE\<close> as in the source.
\<close>

record sampling_grid =
  bins_x :: int
  bins_y :: int
  bin_width_x :: int
  bin_width_y :: int

definition REACHED :: int where
  "REACHED = - 1"

definition NONE :: int where
  "NONE = 0"

definition sample_bin ::
  "'w env \<Rightarrow> t_bb \<Rightarrow> sampling_grid \<Rightarrow> ParentNetId \<Rightarrow> int \<Rightarrow> failure + int \<times> int" where
  "sample_bin e net_bb g n isink =
    (case rr_terminal e n isink of
       Inl f \<Rightarrow> Inl f
     | Inr rr_sink \<Rightarrow>
         let x = size_t_of_int (node_xlow e rr_sink - xmin net_bb) div bin_width_x g;
             y = size_t_of_int (node_ylow e rr_sink - ymin net_bb) div bin_width_y g
         in if x < bins_x g \<and> y < bins_y g then Inr (x, y) else Inl Index_out_of_range)"

text \<open>
  The first loop marks the bins of the sinks already reached; \<open>Inr None\<close> is its early
  \<^verbatim>\<open>return out\<close>, with \<open>out\<close> still empty.
\<close>

fun mark_reached_bins ::
  "'w env \<Rightarrow> t_bb \<Rightarrow> sampling_grid \<Rightarrow> ParentNetId \<Rightarrow> int list \<Rightarrow> (int \<times> int \<Rightarrow> int) \<times> int
    \<Rightarrow> failure + ((int \<times> int \<Rightarrow> int) \<times> int) option" where
  "mark_reached_bins e net_bb g n [] st = Inr (Some st)"
| "mark_reached_bins e net_bb g n (isink # rest) st =
    (if snd st = 0 then Inr None
     else case sample_bin e net_bb g n isink of
            Inl f \<Rightarrow> Inl f
          | Inr b \<Rightarrow>
              if fst st b \<noteq> REACHED
              then mark_reached_bins e net_bb g n rest ((fst st)(b := REACHED), snd st - 1)
              else mark_reached_bins e net_bb g n rest st)"

text \<open>The second loop samples the remaining targets in their given order.\<close>

fun sample_targets ::
  "'w env \<Rightarrow> t_bb \<Rightarrow> sampling_grid \<Rightarrow> ParentNetId \<Rightarrow> int list \<Rightarrow> (int \<times> int \<Rightarrow> int) \<times> int
    \<Rightarrow> int list \<Rightarrow> failure + int list" where
  "sample_targets e net_bb g n [] st out = Inr out"
| "sample_targets e net_bb g n (isink # rest) st out =
    (if snd st = 0 then Inr out
     else case sample_bin e net_bb g n isink of
            Inl f \<Rightarrow> Inl f
          | Inr b \<Rightarrow>
              if fst st b = NONE
              then sample_targets e net_bb g n rest ((fst st)(b := isink), snd st - 1)
                     (out @ [isink])
              else sample_targets e net_bb g n rest st out)"

definition get_decomposition_isinks ::
  "'w env \<Rightarrow> 'w state \<Rightarrow> ParentNetId \<Rightarrow> int list \<Rightarrow> failure + int list" where
  "get_decomposition_isinks e s n remaining_targets =
    (case route_trees s n of
       None \<Rightarrow> Inl Null_dereference
     | Some tree \<Rightarrow>
         let net_bb = route_bb s n;
             width = size_t_of_int (xmax net_bb - xmin net_bb + 1);
             height = size_t_of_int (ymax net_bb - ymin net_bb + 1);
             bx = width div MIN_DECOMP_BIN_WIDTH;
             by = height div MIN_DECOMP_BIN_WIDTH;
             samples_to_find = bx * by
         in if bx = 0 \<or> by = 0 then Inl Division_by_zero
            else
              let g = \<lparr>bins_x = bx, bins_y = by,
                       bin_width_x = width div bx + 1, bin_width_y = height div by + 1\<rparr>
              in case mark_reached_bins e net_bb g n (reached_isinks tree)
                        (\<lambda>b. NONE, samples_to_find) of
                   Inl f \<Rightarrow> Inl f
                 | Inr None \<Rightarrow> Inr []
                 | Inr (Some st) \<Rightarrow> sample_targets e net_bb g n remaining_targets st [])"

text \<open>
  The loop of \<^verbatim>\<open>route_and_decompose\<close> that routes the skeleton sinks inside the net's own
  bounding box; the first component of the result tells whether every sink was routed.
\<close>

fun route_skeleton ::
  "'w env \<Rightarrow> ParentNetId \<Rightarrow> t_bb \<Rightarrow> int list \<Rightarrow> RouteTree \<Rightarrow> 'w \<Rightarrow> bool \<times> RouteTree \<times> 'w" where
  "route_skeleton e n bb [] tree w = (True, tree, w)"
| "route_skeleton e n bb (isink # rest) tree w =
    (case timing_driven_route_sink e n isink bb tree w of
       (sink_flags, tree', w') \<Rightarrow>
         if \<not> success sink_flags then (False, tree', w')
         else route_skeleton e n bb rest tree' w')"

text \<open>
  \<^verbatim>\<open>route_and_decompose\<close>.  Criticalities, cost parameters, delays and statistics do not
  bear on the control flow and are left to the collaborators.  \<open>Inr (None, s')\<close> is the
  empty optional.
\<close>

definition route_and_decompose ::
  "'w env \<Rightarrow> ParentNetId \<Rightarrow> PartitionTreeNode \<Rightarrow> 'w state
    \<Rightarrow> failure + (VirtualNet \<times> VirtualNet) option \<times> 'w state" where
  "route_and_decompose e n node s =
    (if \<not> should_really_route_net e s n then Inr (None, s)
     else
       case setup_routing_resources e n (route_trees s n) (rr_state s) of
         (t1, w1) \<Rightarrow>
           let s1 = s\<lparr>route_trees := (route_trees s)(n := t1), rr_state := w1\<rparr>
           in case t1 of
                None \<Rightarrow> Inl Assertion_failed
              | Some tree \<Rightarrow>
                  let remaining_targets = sort_by_criticality e n (remaining_isinks tree)
                  in case get_decomposition_isinks e s1 n remaining_targets of
                       Inl f \<Rightarrow> Inl f
                     | Inr isinks_to_route \<Rightarrow>
                         (case route_skeleton e n (route_bb s1 n) isinks_to_route tree w1 of
                            (ok, tree', w') \<Rightarrow>
                              let s2 = s1\<lparr>route_trees := (route_trees s1)(n := Some tree'),
                                          rr_state := w'\<rparr>
                              in if \<not> ok then Inr (None, s2)
                                 else
                                   let s3 = s2\<lparr>decomp_retries :=
                                                 (decomp_retries s2)(n := decomp_retries s2 n + 1)\<rparr>
                                   in case make_decomposed_pair e s3 n (cutline_pos node)
                                             (cutline_axis node) of
                                        Inl f \<Rightarrow> Inl f
                                      | Inr pr \<Rightarrow> Inr (Some pr, s3)))"

text \<open>
  Whether the route tree of a net reaches a sink on the given side of a cutline, with
  sides as \<^verbatim>\<open>which_side\<close> assigns them.
\<close>

definition reaches_sink_on ::
  "'w env \<Rightarrow> ParentNetId \<Rightarrow> int \<Rightarrow> Axis \<Rightarrow> Side \<Rightarrow> 'w state \<Rightarrow> bool" where
  "reaches_sink_on e n cut_pos cut_axis side s =
    (case route_trees s n of
       None \<Rightarrow> False
     | Some tree \<Rightarrow>
         (\<exists>isink \<in> set (reached_isinks tree).
            case rr_terminal e n isink of
              Inl f \<Rightarrow> False
            | Inr rr_sink \<Rightarrow> which_side e rr_sink cut_pos cut_axis = side))"

section \<open>Virtual nets\<close>

text \<open>
  Modelled from the spec: \<^verbatim>\<open>inside_bb\<close> is not among the sources.  A routing-resource node
  is inside a bounding box if its corner \<open>(xlow, ylow)\<close> is.
\<close>

definition inside_bb :: "'w env \<Rightarrow> RRNodeId \<Rightarrow> t_bb \<Rightarrow> bool" where
  "inside_bb e inode bb =
    (xmin bb \<le> node_xlow e inode \<and> node_xlow e inode \<le> xmax bb
     \<and> ymin bb \<le> node_ylow e inode \<and> node_ylow e inode \<le> ymax bb)"

fun vnet_filter :: "'w env \<Rightarrow> VirtualNet \<Rightarrow> int list \<Rightarrow> failure + int list" where
  "vnet_filter e vnet [] = Inr []"
| "vnet_filter e vnet (isink # rest) =
    (case rr_terminal e (net_id vnet) isink of
       Inl f \<Rightarrow> Inl f
     | Inr sink_rr \<Rightarrow>
         (case vnet_filter e vnet rest of
            Inl f \<Rightarrow> Inl f
          | Inr out \<Rightarrow> if inside_bb e sink_rr (clipped_bb vnet) then Inr (isink # out) else Inr out))"

definition get_vnet_remaining_isinks ::
  "'w env \<Rightarrow> 'w state \<Rightarrow> VirtualNet \<Rightarrow> failure + int list" where
  "get_vnet_remaining_isinks e s vnet =
    (case route_trees s (net_id vnet) of
       None \<Rightarrow> Inl Null_dereference
     | Some tree \<Rightarrow> vnet_filter e vnet (remaining_isinks tree))"

text \<open>The sink loop of \<^verbatim>\<open>route_virtual_net\<close>, routing inside the clipped bounding box.\<close>

fun route_vnet_sinks ::
  "'w env \<Rightarrow> VirtualNet \<Rightarrow> int list \<Rightarrow> NetResultFlags \<Rightarrow> RouteTree \<Rightarrow> 'w
    \<Rightarrow> NetResultFlags \<times> RouteTree \<times> 'w" where
  "route_vnet_sinks e vnet [] flags tree w = (flags\<lparr>success := True\<rparr>, tree, w)"
| "route_vnet_sinks e vnet (isink # rest) flags tree w =
    (case timing_driven_route_sink e (net_id vnet) isink (clipped_bb vnet) tree w of
       (sink_flags, tree', w') \<Rightarrow>
         let flags' = flags\<lparr>retry_with_full_bb :=
                              retry_with_full_bb flags \<or> retry_with_full_bb sink_flags\<rparr>
         in if \<not> success sink_flags then (flags'\<lparr>success := False\<rparr>, tree', w')
            else route_vnet_sinks e vnet rest flags' tree' w')"

definition route_virtual_net ::
  "'w env \<Rightarrow> VirtualNet \<Rightarrow> nat \<Rightarrow> 'w state \<Rightarrow> failure + NetResultFlags \<times> 'w state" where
  "route_virtual_net e vnet level s =
    (case route_trees s (net_id vnet) of
       None \<Rightarrow> Inl Assertion_failed
     | Some tree \<Rightarrow>
         (case get_vnet_remaining_isinks e s vnet of
            Inl f \<Rightarrow> Inl f
          | Inr rem \<Rightarrow>
              let remaining = sort_by_criticality e (net_id vnet) rem;
                  s1 = (if budgeting_if_set e
                        then s\<lparr>budgeting_should_reroute :=
                                 (budgeting_should_reroute s)(net_id vnet := False)\<rparr>
                        else s)
              in case route_vnet_sinks e vnet remaining default_flags tree (rr_state s1) of
                   (flags, tree', w') \<Rightarrow>
                     Inr (flags, s1\<lparr>route_trees := (route_trees s1)(net_id vnet := Some tree'),
                                    rr_state := w'\<rparr>)))"

section \<open>Dispatcher\<close>

text \<open>Field updates of a node, which the source does in place.\<close>

definition set_is_routable :: "bool \<Rightarrow> PartitionTreeNode \<Rightarrow> PartitionTreeNode" where
  "set_is_routable b node =
    (case node of PartitionTreeNode ns l r ir rr ax p vn \<Rightarrow> PartitionTreeNode ns l r b rr ax p vn)"

definition set_rerouted_nets :: "ParentNetId list \<Rightarrow> PartitionTreeNode \<Rightarrow> PartitionTreeNode" where
  "set_rerouted_nets rr' node =
    (case node of PartitionTreeNode ns l r ir rr ax p vn \<Rightarrow> PartitionTreeNode ns l r ir rr' ax p vn)"

definition set_nets :: "ParentNetId list \<Rightarrow> PartitionTreeNode \<Rightarrow> PartitionTreeNode" where
  "set_nets ns' node =
    (case node of PartitionTreeNode ns l r ir rr ax p vn \<Rightarrow> PartitionTreeNode ns' l r ir rr ax p vn)"

definition set_children ::
  "PartitionTreeNode option \<Rightarrow> PartitionTreeNode option \<Rightarrow> PartitionTreeNode \<Rightarrow> PartitionTreeNode" where
  "set_children l' r' node =
    (case node of PartitionTreeNode ns l r ir rr ax p vn \<Rightarrow> PartitionTreeNode ns l' r' ir rr ax p vn)"

definition push_virtual_net :: "VirtualNet \<Rightarrow> PartitionTreeNode \<Rightarrow> PartitionTreeNode" where
  "push_virtual_net v node =
    (case node of PartitionTreeNode ns l r ir rr ax p vn \<Rightarrow>
       PartitionTreeNode ns l r ir rr ax p (vn @ [v]))"

text \<open>
  The second half of the loop body over \<^verbatim>\<open>node.nets\<close> in
  \<^verbatim>\<open>decompose_route_partition_tree_helper\<close>: the net is routed at this node and its flags
  are recorded.
\<close>

definition route_net_here ::
  "'w env \<Rightarrow> nat \<Rightarrow> ParentNetId \<Rightarrow> PartitionTreeNode \<times> 'w state
    \<Rightarrow> failure + PartitionTreeNode \<times> 'w state" where
  "route_net_here e level n ns =
    (case ns of (node, s1) \<Rightarrow>
      (case try_parallel_route_net e n level s1 of
         (flags, s2) \<Rightarrow>
           let node1 = (if \<not> success flags \<and> \<not> retry_with_full_bb flags
                        then set_is_routable False node else node);
               node2 = (if was_rerouted flags
                        then set_rerouted_nets (rerouted_nets node1 @ [n]) node1
                        else node1);
               s3 = (if retry_with_full_bb flags
                     then s2\<lparr>nets_to_retry := nets_to_retry s2 @ [n]\<rparr> else s2)
           in Inr (node2, s3)))"

text \<open>
  The whole loop body: decompose the net if it should be and can be, otherwise route it
  here.  Pushing a virtual net into an absent child dereferences a null pointer.
\<close>

definition route_node_net ::
  "'w env \<Rightarrow> nat \<Rightarrow> ParentNetId \<Rightarrow> PartitionTreeNode \<times> 'w state
    \<Rightarrow> failure + PartitionTreeNode \<times> 'w state" where
  "route_node_net e level n ns =
    (case ns of (node, s) \<Rightarrow>
      (case should_decompose_net e s n level (cutline_pos node) (cutline_axis node) of
         Inl f \<Rightarrow> Inl f
       | Inr dec \<Rightarrow>
          (case (if dec then route_and_decompose e n node s else Inr (None, s)) of
             Inl f \<Rightarrow> Inl f
           | Inr (Some (lv, rv), s1) \<Rightarrow>
               (case (left node, right node) of
                  (Some lc, Some rc) \<Rightarrow>
                    Inr (set_rerouted_nets (rerouted_nets node @ [n])
                           (set_children (Some (push_virtual_net lv lc))
                              (Some (push_virtual_net rv rc)) node), s1)
                | _ \<Rightarrow> Inl Null_dereference)
           | Inr (None, s1) \<Rightarrow> route_net_here e level n (node, s1))))"

fun route_node_nets ::
  "'w env \<Rightarrow> nat \<Rightarrow> ParentNetId list \<Rightarrow> PartitionTreeNode \<times> 'w state
    \<Rightarrow> failure + PartitionTreeNode \<times> 'w state" where
  "route_node_nets e level [] ns = Inr ns"
| "route_node_nets e level (n # rest) ns =
    (case route_node_net e level n ns of
       Inl f \<Rightarrow> Inl f
     | Inr ns' \<Rightarrow> route_node_nets e level rest ns')"

text \<open>The loop over \<^verbatim>\<open>node.virtual_nets\<close>.\<close>

fun route_node_vnets ::
  "'w env \<Rightarrow> nat \<Rightarrow> VirtualNet list \<Rightarrow> 'w state \<Rightarrow> failure + 'w state" where
  "route_node_vnets e level [] s = Inr s"
| "route_node_vnets e level (vnet # rest) s =
    (case route_virtual_net e vnet level s of
       Inl f \<Rightarrow> Inl f
     | Inr (flags, s1) \<Rightarrow>
         route_node_vnets e level rest
           (if \<not> success flags \<and> \<not> retry_with_full_bb flags
            then s1\<lparr>decomp_retries := (decomp_retries s1)(net_id vnet := MAX_DECOMP_REROUTE)\<rparr>
            else if retry_with_full_bb flags
            then s1\<lparr>nets_to_retry := nets_to_retry s1 @ [net_id vnet]\<rparr>
            else s1))"

text \<open>
  The work of one task on its own node: sort the nets by descending sink count (a stable
  sort stands for \<^verbatim>\<open>std::sort\<close>, which leaves the order of ties open), reset the result
  fields, route the nets, then the virtual nets.
\<close>

definition route_node ::
  "'w env \<Rightarrow> nat \<Rightarrow> PartitionTreeNode \<Rightarrow> 'w state \<Rightarrow> failure + PartitionTreeNode \<times> 'w state" where
  "route_node e level node s =
    (let node0 = set_rerouted_nets [] (set_is_routable True
                   (set_nets (sort_key (\<lambda>n. - int (net_num_sinks e n)) (nets node)) node))
     in case route_node_nets e level (nets node0) (node0, s) of
          Inl f \<Rightarrow> Inl f
        | Inr (node1, s1) \<Rightarrow>
            (case route_node_vnets e level (virtual_nets node1) s1 of
               Inl f \<Rightarrow> Inl f
             | Inr s2 \<Rightarrow> Inr (node1, s2)))"

text \<open>The number of nodes of a subtree: what the recursion of the dispatcher descends on.\<close>

fun node_count :: "PartitionTreeNode \<Rightarrow> nat" where
  "node_count (PartitionTreeNode ns l r ir rr ax p vn) =
    1 + (case l of None \<Rightarrow> 0 | Some lc \<Rightarrow> node_count lc)
      + (case r of None \<Rightarrow> 0 | Some rc \<Rightarrow> node_count rc)"

text \<open>
  \<^verbatim>\<open>decompose_route_partition_tree_helper\<close>.  The two child tasks run in the task group
  after the node's own work; here the left subtree is finished before the right one is
  started.  A node with exactly one child fails the assertion of the source.
\<close>

function decompose_route_partition_tree_helper ::
  "'w env \<Rightarrow> PartitionTreeNode \<Rightarrow> nat \<Rightarrow> 'w state \<Rightarrow> failure + PartitionTreeNode \<times> 'w state" where
  "decompose_route_partition_tree_helper e node level s =
    (case route_node e level node s of
       Inl f \<Rightarrow> Inl f
     | Inr (node1, s1) \<Rightarrow>
         (case (left node1, right node1) of
            (Some lc, Some rc) \<Rightarrow>
              (case decompose_route_partition_tree_helper e lc (level + 1) s1 of
                 Inl f \<Rightarrow> Inl f
               | Inr (lc', s2) \<Rightarrow>
                   (case decompose_route_partition_tree_helper e rc (level + 1) s2 of
                      Inl f \<Rightarrow> Inl f
                    | Inr (rc', s3) \<Rightarrow> Inr (set_children (Some lc') (Some rc') node1, s3)))
          | (None, None) \<Rightarrow> Inr (node1, s1)
          | _ \<Rightarrow> Inl Assertion_failed))"
  by pat_completeness auto

text \<open>
  \<^verbatim>\<open>RouteIterResults\<close> without the statistics, and the reduction over the tree.
\<close>

record RouteIterResults =
  res_is_routable :: bool
  res_rerouted_nets :: "ParentNetId list"

fun reduce_partition_tree_helper :: "PartitionTreeNode \<Rightarrow> RouteIterResults \<Rightarrow> RouteIterResults" where
  "reduce_partition_tree_helper (PartitionTreeNode ns l r ir rr ax p vn) results =
    (let r1 = results\<lparr>res_is_routable := res_is_routable results \<and> ir,
                       res_rerouted_nets := res_rerouted_nets results @ rr\<rparr>;
         r2 = (case l of None \<Rightarrow> r1 | Some lc \<Rightarrow> reduce_partition_tree_helper lc r1)
     in (case r of None \<Rightarrow> r2 | Some rc \<Rightarrow> reduce_partition_tree_helper rc r2))"

text \<open>The loop that grows the bounding box of every net to retry and caps its counter.\<close>

definition grow_and_cap :: "'w env \<Rightarrow> ParentNetId \<Rightarrow> 'w state \<Rightarrow> 'w state" where
  "grow_and_cap e n s =
    s\<lparr>route_bb := (route_bb s)(n := \<lparr>xmin = 0, xmax = grid_width e - 1,
                                       ymin = 0, ymax = grid_height e - 1\<rparr>),
      decomp_retries := (decomp_retries s)(n := MAX_DECOMP_REROUTE)\<rparr>"

text \<open>
  \<^verbatim>\<open>decompose_route_partition_tree\<close>, on the root pointer of the tree; \<^verbatim>\<open>tree.root()\<close>
  dereferences it.  The result carries the reduced results, the tree with the per-node
  results written on it, and the final state.
\<close>

definition decompose_route_partition_tree ::
  "'w env \<Rightarrow> PartitionTreeNode option \<Rightarrow> 'w state
    \<Rightarrow> failure + RouteIterResults \<times> PartitionTreeNode \<times> 'w state" where
  "decompose_route_partition_tree e tree s =
    (case tree of
       None \<Rightarrow> Inl Null_dereference
     | Some rt \<Rightarrow>
         (case decompose_route_partition_tree_helper e rt 0 (s\<lparr>nets_to_retry := []\<rparr>) of
            Inl f \<Rightarrow> Inl f
          | Inr (rt', s1) \<Rightarrow>
              Inr (reduce_partition_tree_helper rt'
                     \<lparr>res_is_routable = True, res_rerouted_nets = []\<rparr>,
                   rt',
                   fold (grow_and_cap e) (nets_to_retry s1) s1)))"

section \<open>Predicates of the statements\<close>

text \<open>
  A net that is fixed, ignored, or whose existing routing needs no rerouting: neither
  a reroute for hold is due nor does \<^verbatim>\<open>should_route_net\<close> ask for one.
\<close>

definition needs_no_routing :: "'w env \<Rightarrow> 'w state \<Rightarrow> ParentNetId \<Rightarrow> bool" where
  "needs_no_routing e s n =
    (net_is_fixed e n \<or> net_is_ignored e n
     \<or> (\<not> (budgeting_if_set e \<and> budgeting_should_reroute s n \<and> worst_negative_slack e \<noteq> 0)
         \<and> \<not> should_route_net e n (route_trees s n) (rr_state s)))"

text \<open>The bounding box of the whole device.\<close>

definition full_device_bb :: "'w env \<Rightarrow> t_bb" where
  "full_device_bb e = \<lparr>xmin = 0, xmax = grid_width e - 1, ymin = 0, ymax = grid_height e - 1\<rparr>"

text \<open>All nodes of a subtree, the node itself first.\<close>

fun tree_nodes :: "PartitionTreeNode \<Rightarrow> PartitionTreeNode list" where
  "tree_nodes (PartitionTreeNode ns l r ir rr ax p vn) =
    PartitionTreeNode ns l r ir rr ax p vn
      # (case l of None \<Rightarrow> [] | Some lc \<Rightarrow> tree_nodes lc)
      @ (case r of None \<Rightarrow> [] | Some rc \<Rightarrow> tree_nodes rc)"

text \<open>
  The state in which the dispatcher routes a net directly at its node: the current one
  when the net is not to be decomposed, and the one \<^verbatim>\<open>route_and_decompose\<close> leaves behind
  when it returns the empty optional.
\<close>

definition direct_route_state ::
  "'w env \<Rightarrow> nat \<Rightarrow> ParentNetId \<Rightarrow> PartitionTreeNode \<Rightarrow> 'w state \<Rightarrow> 'w state option" where
  "direct_route_state e level n node s =
    (case should_decompose_net e s n level (cutline_pos node) (cutline_axis node) of
       Inl f \<Rightarrow> None
     | Inr dec \<Rightarrow>
         if dec
         then (case route_and_decompose e n node s of
                 Inr (None, s1) \<Rightarrow> Some s1
               | _ \<Rightarrow> None)
         else Some s)"

text \<open>Containment of one bounding box in another.\<close>

definition bb_inside :: "t_bb \<Rightarrow> t_bb \<Rightarrow> bool" where
  "bb_inside inner outer =
    (xmin outer \<le> xmin inner \<and> xmax inner \<le> xmax outer
     \<and> ymin outer \<le> ymin inner \<and> ymax inner \<le> ymax outer)"




text \<open>
  The cutline candidates of one recursion step in scan order: the surviving positions of
  the X axis in ascending order, then those of the Y axis, each with its score
  \<open>\<bar>before - after\<bar>\<close>, its absolute position and its axis.
\<close>

definition axis_candidates :: "Axis \<Rightarrow> int \<Rightarrow> int list \<times> int list \<Rightarrow> (int \<times> int \<times> Axis) list" where
  "axis_candidates axis origin tot =
    map (\<lambda>x. (\<bar>fst tot ! x - snd tot ! x\<bar>, origin + int x, axis))
      (filter (cut_survives tot) [0..<length (fst tot)])"

definition cut_candidates ::
  "'w env \<Rightarrow> 'w state \<Rightarrow> ParentNetId list \<Rightarrow> int \<Rightarrow> int \<Rightarrow> int \<Rightarrow> int \<Rightarrow> (int \<times> int \<times> Axis) list" where
  "cut_candidates e s ns x1 y1 x2 y2 =
    axis_candidates X x1 (total_lookup e s X x1 x2 ns)
    @ axis_candidates Y y1 (total_lookup e s Y y1 y2 ns)"

text \<open>
  The skeleton sinks as the specification describes them: going through the remaining
  targets in their order, a sink is taken iff its bin has neither been reached nor
  supplied a sink before.
\<close>

fun first_in_bin :: "(int \<Rightarrow> 'b) \<Rightarrow> 'b set \<Rightarrow> int list \<Rightarrow> int list" where
  "first_in_bin bin seen [] = []"
| "first_in_bin bin seen (i # rest) =
    (if bin i \<in> seen then first_in_bin bin seen rest
     else i # first_in_bin bin (insert (bin i) seen) rest)"

text \<open>The sampling grid of a valid bounding box, in plain integers.\<close>

definition net_sampling_grid :: "t_bb \<Rightarrow> sampling_grid" where
  "net_sampling_grid bb =
    \<lparr>bins_x = (xmax bb - xmin bb + 1) div 5,
     bins_y = (ymax bb - ymin bb + 1) div 5,
     bin_width_x = (xmax bb - xmin bb + 1) div ((xmax bb - xmin bb + 1) div 5) + 1,
     bin_width_y = (ymax bb - ymin bb + 1) div ((ymax bb - ymin bb + 1) div 5) + 1\<rparr>"

text \<open>The bins that hold one of the given sinks.\<close>

definition bins_of :: "(int \<Rightarrow> failure + int \<times> int) \<Rightarrow> int list \<Rightarrow> (int \<times> int) set" where
  "bins_of bin xs = {b. \<exists>i \<in> set xs. bin i = Inr b}"

section \<open>Concrete inputs\<close>

text \<open>
  A device of 15 by 15 tiles and a net of ten sinks whose bounding box is the whole
  device.  Routing-resource node \<open>i\<close> sits at \<open>(i, i)\<close>; the collaborators are stubs that
  succeed, and routing a sink moves it from the remaining to the reached ones.
\<close>

definition demo_env :: "unit env" where
  "demo_env = \<lparr>
     netlist_nets = [0],
     net_num_sinks = (\<lambda>_. 10),
     net_is_ignored = (\<lambda>_. False),
     net_is_global = (\<lambda>_. False),
     net_is_fixed = (\<lambda>_. False),
     net_rr_terminals = (\<lambda>_. [0, 1, 2, 3, 4, 5, 6, 7, 8, 9, 10]),
     node_xlow = (\<lambda>i. int i),
     node_ylow = (\<lambda>i. int i),
     grid_width = 15,
     grid_height = 15,
     log2_ceil_num_workers = 2,
     two_stage_clock_routing = False,
     budgeting_if_set = False,
     worst_negative_slack = 0,
     should_route_net = (\<lambda>_ _ _. True),
     setup_routing_resources = (\<lambda>_ t w. (t, w)),
     sort_by_criticality = (\<lambda>_ xs. xs),
     timing_driven_route_net = (\<lambda>_ _ t w. (default_flags\<lparr>success := True\<rparr>, t, w)),
     timing_driven_route_sink =
       (\<lambda>_ isink _ t w.
          (default_flags\<lparr>success := True\<rparr>,
           t\<lparr>reached_isinks := reached_isinks t @ [isink],
             remaining_isinks := removeAll isink (remaining_isinks t)\<rparr>, w))\<rparr>"

definition demo_state :: "unit state" where
  "demo_state = \<lparr>
     route_bb = (\<lambda>_. \<lparr>xmin = 0, xmax = 14, ymin = 0, ymax = 14\<rparr>),
     route_trees = (\<lambda>_. None),
     net_is_routed = (\<lambda>_. False),
     budgeting_should_reroute = (\<lambda>_. False),
     decomp_retries = (\<lambda>_. 0),
     nets_to_retry = [],
     rr_state = ()\<rparr>"

text \<open>The same surroundings with a connection router that fails on every net.\<close>

definition failing_env :: "unit env" where
  "failing_env = demo_env\<lparr>timing_driven_route_net := (\<lambda>_ _ t w. (default_flags, t, w))\<rparr>"

text \<open>
  A connection router that asks for a retry with the full-device bounding box, and a
  state in which the bounding box of every net is a part of the device.
\<close>

definition retry_env :: "unit env" where
  "retry_env = demo_env\<lparr>timing_driven_route_net :=
     (\<lambda>_ _ t w. (default_flags\<lparr>retry_with_full_bb := True\<rparr>, t, w))\<rparr>"

definition small_state :: "unit state" where
  "small_state = demo_state\<lparr>route_bb := (\<lambda>_. \<lparr>xmin = 2, xmax = 8, ymin = 2, ymax = 8\<rparr>)\<rparr>"

text \<open>
  A connection router that fails on every sink without asking for a retry, a state in
  which every net has a route tree with ten sinks to go, and the left half of net 0 as
  a virtual net.
\<close>

definition sink_fail_env :: "unit env" where
  "sink_fail_env = demo_env\<lparr>timing_driven_route_sink := (\<lambda>_ _ _ t w. (default_flags, t, w))\<rparr>"

definition tree_state :: "unit state" where
  "tree_state = demo_state\<lparr>route_trees :=
     (\<lambda>_. Some \<lparr>root_inode = 0, reached_isinks = [], remaining_isinks = [1, 2, 3, 4, 5, 6, 7, 8, 9, 10]\<rparr>)\<rparr>"

definition left_vnet :: VirtualNet where
  "left_vnet = \<lparr>net_id = 0, clipped_bb = \<lparr>xmin = 0, xmax = 7, ymin = 0, ymax = 14\<rparr>\<rparr>"

text \<open>A node whose cutline is \<open>x = 7\<close>, with two leaves below it.\<close>

definition cut_node :: PartitionTreeNode where
  "cut_node = PartitionTreeNode [0] (Some (leaf_node [])) (Some (leaf_node [])) False [] X 7 []"

text \<open>
  Surroundings in which the source of the net sits at \<open>x = 0\<close> and all of its ten sinks
  at \<open>x \<ge> 8\<close>, right of the cutline.
\<close>

definition right_env :: "unit env" where
  "right_env = demo_env\<lparr>node_xlow := (\<lambda>i. if i = 0 then 0 else 8 + int (i mod 7))\<rparr>"

text \<open>
  A device of four tiles in a row with two single-sink nets, one in the leftmost and one
  in the rightmost tile.
\<close>

definition row_env :: "unit env" where
  "row_env = demo_env\<lparr>netlist_nets := [0, 1], net_num_sinks := (\<lambda>_. 1),
                       grid_width := 4, grid_height := 1\<rparr>"

definition row_state :: "unit state" where
  "row_state = demo_state\<lparr>route_bb :=
     (\<lambda>n. if n = 0 then \<lparr>xmin = 0, xmax = 0, ymin = 0, ymax = 0\<rparr>
          else \<lparr>xmin = 3, xmax = 3, ymin = 0, ymax = 0\<rparr>)\<rparr>"

text \<open>
  A device of four tiles in a column with three single-sink nets: one in the topmost
  tile, one in the bottommost, and one that spans the column.
\<close>

definition col_env :: "unit env" where
  "col_env = demo_env\<lparr>netlist_nets := [0, 1, 2], net_num_sinks := (\<lambda>_. 1),
                       grid_width := 1, grid_height := 4\<rparr>"

definition col_state :: "unit state" where
  "col_state = demo_state\<lparr>route_bb :=
     (\<lambda>n. if n = 0 then \<lparr>xmin = 0, xmax = 0, ymin = 0, ymax = 0\<rparr>
          else if n = 1 then \<lparr>xmin = 0, xmax = 0, ymin = 3, ymax = 3\<rparr>
          else \<lparr>xmin = 0, xmax = 0, ymin = 0, ymax = 3\<rparr>)\<rparr>"

text \<open>
  A state in which the route tree of every net reaches sink 7 and has nine sinks to go.
\<close>

definition partly_routed_state :: "unit state" where
  "partly_routed_state = demo_state\<lparr>route_trees :=
     (\<lambda>_. Some \<lparr>root_inode = 0, reached_isinks = [7],
                  remaining_isinks = [1, 2, 3, 4, 5, 6, 8, 9, 10]\<rparr>)\<rparr>"

section \<open>Termination of the partition tree builder\<close>

lemma fold_scan_cases:
  "fold (scan_step axis origin tot) xs best = best
   \<or> (\<exists>x\<in>set xs. fst tot ! x \<noteq> fst tot ! (length (fst tot) - 1) \<and> snd tot ! x \<noteq> snd tot ! 0
        \<and> fold (scan_step axis origin tot) xs best = (\<bar>fst tot ! x - snd tot ! x\<bar>, origin + int x, axis))"
proof (induction xs arbitrary: best)
  case Nil
  then show ?case by simp
next
  case (Cons a xs)
  show ?case
    using Cons.IH [of "scan_step axis origin tot a best"]
    by (auto simp: scan_step_def Let_def split: if_splits)
qed

lemma length_add_from [simp]: "length (add_from st v a) = length a"
  by (simp add: add_from_def)

lemma length_add_below [simp]: "length (add_below en v a) = length a"
  by (simp add: add_below_def)

lemma nth_add_from: "x < length a \<Longrightarrow> add_from st v a ! x = (if st \<le> int x then a ! x + v else a ! x)"
  by (simp add: add_from_def nth_enumerate_eq)

lemma nth_add_below: "x < length a \<Longrightarrow> add_below en v a ! x = (if int x < en then a ! x + v else a ! x)"
  by (simp add: add_below_def nth_enumerate_eq)

lemma accumulate_net_nth:
  assumes "length (fst tot) = w" "length (snd tot) = w"
  shows "length (fst (accumulate_net e s axis lo hi a tot)) = w"
    and "length (snd (accumulate_net e s axis lo hi a tot)) = w"
    and "x < w \<Longrightarrow> fst (accumulate_net e s axis lo hi a tot) ! x
          = fst tot ! x + (if net_start s axis lo a \<le> int x then int (net_num_sinks e a) else 0)"
    and "x < w \<Longrightarrow> snd (accumulate_net e s axis lo hi a tot) ! x
          = snd tot ! x + (if int x < net_end s axis lo hi a then int (net_num_sinks e a) else 0)"
  using assms
  by (auto simp: accumulate_net_def Let_def nth_add_from nth_add_below net_start_def net_end_def)

lemma fold_accumulate:
  "length (fst tot) = w \<Longrightarrow> length (snd tot) = w \<Longrightarrow>
   length (fst (fold (accumulate_net e s axis lo hi) ns tot)) = w
   \<and> length (snd (fold (accumulate_net e s axis lo hi) ns tot)) = w
   \<and> (\<forall>x<w. fst (fold (accumulate_net e s axis lo hi) ns tot) ! x
        = fst tot ! x + (\<Sum>n\<leftarrow>ns. if net_start s axis lo n \<le> int x then int (net_num_sinks e n) else 0))
   \<and> (\<forall>x<w. snd (fold (accumulate_net e s axis lo hi) ns tot) ! x
        = snd tot ! x + (\<Sum>n\<leftarrow>ns. if int x < net_end s axis lo hi n then int (net_num_sinks e n) else 0))"
proof (induction ns arbitrary: tot)
  case Nil
  then show ?case by simp
next
  case (Cons a ns)
  note l = accumulate_net_nth(1,2) [OF Cons.prems, of e s axis lo hi a]
  note n = accumulate_net_nth(3,4) [OF Cons.prems, of _ e s axis lo hi a]
  show ?case
    using Cons.IH [OF l] by (simp add: n)
qed

lemma total_lookup_nth:
  assumes "lo < hi"
  shows "length (fst (total_lookup e s axis lo hi ns)) = nat (hi - lo)"
    and "length (snd (total_lookup e s axis lo hi ns)) = nat (hi - lo)"
    and "x < nat (hi - lo) \<Longrightarrow> fst (total_lookup e s axis lo hi ns) ! x
          = (\<Sum>n\<leftarrow>ns. if net_start s axis lo n \<le> int x then int (net_num_sinks e n) else 0)"
    and "x < nat (hi - lo) \<Longrightarrow> snd (total_lookup e s axis lo hi ns) ! x
          = (\<Sum>n\<leftarrow>ns. if int x < net_end s axis lo hi n then int (net_num_sinks e n) else 0)"
  using fold_accumulate [of "(replicate (nat (hi - lo)) 0, replicate (nat (hi - lo)) 0)" "nat (hi - lo)" e s axis lo hi ns]
  by (simp_all add: total_lookup_def)

lemma sum_list_differ:
  "(\<Sum>n\<leftarrow>ns. f n) \<noteq> (\<Sum>n\<leftarrow>ns. g n) \<Longrightarrow> \<exists>n\<in>set ns. f n \<noteq> (g n :: int)"
  by (induction ns) auto

lemma partition_nets_filter:
  "partition_nets s axis p ns = Inr (l, r, m) \<Longrightarrow>
     l = filter (\<lambda>n. bb_min axis (route_bb s n) < p \<and> bb_max axis (route_bb s n) < p) ns
   \<and> r = filter (\<lambda>n. bb_min axis (route_bb s n) > p \<and> bb_max axis (route_bb s n) > p) ns
   \<and> m = filter (\<lambda>n. bb_min axis (route_bb s n) \<le> p \<and> bb_max axis (route_bb s n) \<ge> p) ns"
proof (induction ns arbitrary: l r m)
  case Nil
  then show ?case by simp
next
  case (Cons a ns)
  then show ?case
    by (auto simp: Let_def split: if_splits sum.splits)
qed

lemma survivor_sides:
  assumes lt: "lo < hi" and x: "x < nat (hi - lo)"
    and sv: "cut_survives (total_lookup e s axis lo hi ns) x"
  shows "\<exists>n\<in>set ns. bb_min axis (route_bb s n) > lo + int x"
    and "\<exists>n\<in>set ns. bb_max axis (route_bb s n) < lo + int x"
proof -
  let ?tot = "total_lookup e s axis lo hi ns"
  have len: "length (fst ?tot) = nat (hi - lo)"
    by (rule total_lookup_nth(1) [OF lt])
  have last: "nat (hi - lo) - 1 < nat (hi - lo)" and zero: "0 < nat (hi - lo)"
    using lt by simp_all
  from sv have "fst ?tot ! x \<noteq> fst ?tot ! (nat (hi - lo) - 1)"
    by (simp add: cut_survives_def len)
  then obtain n where n: "n \<in> set ns"
    and "(if net_start s axis lo n \<le> int x then int (net_num_sinks e n) else 0)
       \<noteq> (if net_start s axis lo n \<le> int (nat (hi - lo) - 1) then int (net_num_sinks e n) else 0)"
    unfolding total_lookup_nth(3) [OF lt x] total_lookup_nth(3) [OF lt last]
    by (blast dest: sum_list_differ)
  then have "\<not> net_start s axis lo n \<le> int x"
    using x by (auto split: if_splits)
  then have "bb_min axis (route_bb s n) > lo + int x"
    by (simp add: net_start_def max_def split: if_splits)
  with n show "\<exists>n\<in>set ns. bb_min axis (route_bb s n) > lo + int x" by blast
  from sv have "snd ?tot ! x \<noteq> snd ?tot ! 0"
    by (simp add: cut_survives_def)
  then obtain m where m: "m \<in> set ns"
    and "(if int x < net_end s axis lo hi m then int (net_num_sinks e m) else 0)
       \<noteq> (if int 0 < net_end s axis lo hi m then int (net_num_sinks e m) else 0)"
    unfolding total_lookup_nth(4) [OF lt x] total_lookup_nth(4) [OF lt zero]
    by (blast dest: sum_list_differ)
  then have "\<not> int x < net_end s axis lo hi m"
    by (auto split: if_splits)
  then have "bb_max axis (route_bb s m) < lo + int x"
    using x by (simp add: net_end_def min_def split: if_splits)
  with m show "\<exists>n\<in>set ns. bb_max axis (route_bb s n) < lo + int x" by blast
qed

lemma scan_axis_cases:
  "scan_axis axis origin tot best = best
   \<or> (\<exists>x<length (fst tot). cut_survives tot x
        \<and> scan_axis axis origin tot best = (\<bar>fst tot ! x - snd tot ! x\<bar>, origin + int x, axis))"
  using fold_scan_cases [of axis origin tot "[0..<length (fst tot)]" best]
  by (auto simp: scan_axis_def cut_survives_def)

lemma choose_cutline_cases:
  "choose_cutline e s ns x1 y1 x2 y2 = (INT_MAX, - 1, X)
   \<or> (\<exists>x<length (fst (total_lookup e s X x1 x2 ns)). cut_survives (total_lookup e s X x1 x2 ns) x
        \<and> snd (choose_cutline e s ns x1 y1 x2 y2) = (x1 + int x, X))
   \<or> (\<exists>y<length (fst (total_lookup e s Y y1 y2 ns)). cut_survives (total_lookup e s Y y1 y2 ns) y
        \<and> snd (choose_cutline e s ns x1 y1 x2 y2) = (y1 + int y, Y))"
  using scan_axis_cases [of X x1 "total_lookup e s X x1 x2 ns" "(INT_MAX, - 1, X)"]
        scan_axis_cases [of Y y1 "total_lookup e s Y y1 y2 ns"
           "scan_axis X x1 (total_lookup e s X x1 x2 ns) (INT_MAX, - 1, X)"]
  unfolding choose_cutline_def by (elim disjE exE conjE) simp_all

lemma cut_makes_progress:
  assumes rg: "x1 < x2" "y1 < y2"
    and cut: "fst (snd (choose_cutline e s ns x1 y1 x2 y2)) \<noteq> - 1"
    and parts: "partition_nets s (snd (snd (choose_cutline e s ns x1 y1 x2 y2)))
                  (fst (snd (choose_cutline e s ns x1 y1 x2 y2))) ns = Inr parts"
  shows "length (fst parts) < length ns" and "length (fst (snd parts)) < length ns"
proof -
  let ?c = "choose_cutline e s ns x1 y1 x2 y2"
  obtain axis lo hi x where ax: "snd ?c = (lo + int x, axis)" and lt: "lo < hi"
    and x: "x < nat (hi - lo)" and sv: "cut_survives (total_lookup e s axis lo hi ns) x"
    using choose_cutline_cases [of e s ns x1 y1 x2 y2] cut rg
    by (auto simp: total_lookup_nth(1))
  obtain l r m where p: "parts = (l, r, m)" by (cases parts) auto
  have pn: "partition_nets s axis (lo + int x) ns = Inr (l, r, m)"
    using parts ax p by (simp add: snd_def split: prod.splits)
  note f = partition_nets_filter [OF pn]
  from survivor_sides [OF lt x sv]
  obtain n m' where n: "n \<in> set ns" "bb_min axis (route_bb s n) > lo + int x"
    and m': "m' \<in> set ns" "bb_max axis (route_bb s m') < lo + int x" by blast
  have "length l < length ns"
    unfolding conjunct1 [OF f] using n by (intro length_filter_less [of n]) auto
  moreover have "length r < length ns"
    unfolding conjunct1 [OF conjunct2 [OF f]] using m' by (intro length_filter_less [of m']) auto
  ultimately have "length l < length ns" "length r < length ns" .
  then show "length (fst parts) < length ns" and "length (fst (snd parts)) < length ns"
    by (simp_all add: p)
qed

lemma Axis_neq_X: "a \<noteq> X \<longleftrightarrow> a = Y"
  by (cases a) simp_all

termination build_helper
proof (relation "measure (\<lambda>(e, s, ns, x1, y1, x2, y2). length ns)", goal_cases)
  case 1
  show ?case by simp
next
  case (2 e s ns x1 y1 x2 y2 best best_pos best_axis parts)
  then show ?case using cut_makes_progress(1) [of x1 x2 y1 y2 e s ns parts] by simp
next
  case (3 e s ns x1 y1 x2 y2 best best_pos best_axis parts l)
  then show ?case using cut_makes_progress(2) [of x1 x2 y1 y2 e s ns parts] by simp
next
  case (4 e s ns x1 y1 x2 y2 best best_pos best_axis parts)
  then show ?case using cut_makes_progress(1) [of x1 x2 y1 y2 e s ns parts]
    by (simp add: Axis_neq_X)
next
  case (5 e s ns x1 y1 x2 y2 best best_pos best_axis parts l)
  then show ?case using cut_makes_progress(2) [of x1 x2 y1 y2 e s ns parts]
    by (simp add: Axis_neq_X)
qed

declare build_helper.simps [simp del]

section \<open>Termination of the dispatcher\<close>

lemma node_count_set [simp]:
  "node_count (set_is_routable b node) = node_count node"
  "node_count (set_rerouted_nets rr node) = node_count node"
  "node_count (set_nets ns node) = node_count node"
  "node_count (push_virtual_net v node) = node_count node"
  by (cases node; simp add: set_is_routable_def set_rerouted_nets_def set_nets_def push_virtual_net_def)+

lemma node_count_children:
  "left node = Some lc \<Longrightarrow> right node = Some rc \<Longrightarrow>
   node_count lc' = node_count lc \<Longrightarrow> node_count rc' = node_count rc \<Longrightarrow>
   node_count (set_children (Some lc') (Some rc') node) = node_count node"
  by (cases node) (simp add: set_children_def)

lemma route_node_net_count:
  "route_node_net e level n (node, s) = Inr (node', s') \<Longrightarrow> node_count node' = node_count node"
  by (auto simp: route_node_net_def route_net_here_def Let_def node_count_children
      split: sum.splits option.splits prod.splits if_splits)

lemma route_node_nets_count:
  "route_node_nets e level ns (node, s) = Inr (node', s') \<Longrightarrow> node_count node' = node_count node"
proof (induction ns arbitrary: node s)
  case Nil
  then show ?case by simp
next
  case (Cons a ns)
  then show ?case
    by (auto split: sum.splits dest: route_node_net_count)
qed

lemma route_node_count:
  "route_node e level node s = Inr (node', s') \<Longrightarrow> node_count node' = node_count node"
  by (auto simp: route_node_def Let_def split: sum.splits dest!: route_node_nets_count)

lemma node_count_child:
  "left node = Some lc \<Longrightarrow> node_count lc < node_count node"
  "right node = Some rc \<Longrightarrow> node_count rc < node_count node"
  by (cases node; simp)+

termination decompose_route_partition_tree_helper
proof (relation "measure (\<lambda>(e, node, level, s). node_count node)", goal_cases)
  case 1
  show ?case by simp
next
  case (2 e node level s x node1 s1 l r lc rc)
  then show ?case
    using route_node_count [of e level node s node1 s1] node_count_child(1) [of node1 lc] by simp
next
  case (3 e node level s x node1 s1 l r lc rc x2 y)
  then show ?case
    using route_node_count [of e level node s node1 s1] node_count_child(2) [of node1 rc] by simp
qed

declare decompose_route_partition_tree_helper.simps [simp del]

section \<open>Evaluation of concrete runs\<close>

lemmas eval_defs = decompose_route_partition_tree_def decompose_route_partition_tree_helper.simps
  route_node_def route_node_net_def route_net_here_def should_decompose_net_def is_worth_decomposing_def
  try_parallel_route_net_def should_really_route_net_def
  set_is_routable_def set_rerouted_nets_def set_nets_def set_children_def push_virtual_net_def
  leaf_node_def default_flags_def grow_and_cap_def
  size_t_of_int_def int_of_size_t_def MIN_DECOMP_BIN_WIDTH_def MAX_DECOMP_REROUTE_def Let_def

section \<open>Sink-count threshold of decomposition eligibility\<close>

text \<open>
  Claim C7, as stated, at a concrete input: a net of exactly
  \<open>max (2 * (bins_x + bins_y) - 4) 4 + 2 = 10\<close> sinks (eleven terminals with the source) on
  a 15 by 15 bounding box cut at \<open>x = 7\<close> is found worth decomposing, and
  \<^verbatim>\<open>should_decompose_net\<close> accepts it, although it has no more than that many sinks.
\<close>

theorem sink_threshold_counterexample:
  "is_worth_decomposing demo_env demo_state 0 7 X = Inr True
   \<and> should_decompose_net demo_env demo_state 0 0 7 X = Inr True
   \<and> length (net_rr_terminals demo_env 0) = net_num_sinks demo_env 0 + 1
   \<and> \<not> int (net_num_sinks demo_env 0) > max (2 * (15 div 5 + 15 div 5) - 4) 4 + 2"
  by (simp add: is_worth_decomposing_def should_decompose_net_def demo_env_def demo_state_def
      size_t_of_int_def int_of_size_t_def MIN_DECOMP_BIN_WIDTH_def MAX_DECOMP_REROUTE_def Let_def)

text \<open>
  Claim C7, amended: on a valid bounding box of width \<open>W\<close> and height \<open>H\<close>,
  \<^verbatim>\<open>is_worth_decomposing\<close> (and hence \<^verbatim>\<open>should_decompose_net\<close>) returns true only if the net
  has more than \<open>max (2 * (W div 5 + H div 5) - 4) 4 + 2\<close> terminals, the source counted
  with the sinks; that is, only if it has at least that many sinks.
\<close>

theorem sink_threshold_terminals:
  assumes ok: "should_decompose_net e s n level p axis = Inr True
             \<or> is_worth_decomposing e s n p axis = Inr True"
    and bx: "xmin (route_bb s n) \<le> xmax (route_bb s n)"
            "xmax (route_bb s n) - xmin (route_bb s n) < 2 ^ 31 - 1"
    and byy: "ymin (route_bb s n) \<le> ymax (route_bb s n)"
             "ymax (route_bb s n) - ymin (route_bb s n) < 2 ^ 31 - 1"
    and wf: "length (net_rr_terminals e n) = net_num_sinks e n + 1"
  shows "int (length (net_rr_terminals e n)) >
           max (2 * ((xmax (route_bb s n) - xmin (route_bb s n) + 1) div 5
                   + (ymax (route_bb s n) - ymin (route_bb s n) + 1) div 5) - 4) 4 + 2
       \<and> int (net_num_sinks e n) \<ge>
           max (2 * ((xmax (route_bb s n) - xmin (route_bb s n) + 1) div 5
                   + (ymax (route_bb s n) - ymin (route_bb s n) + 1) div 5) - 4) 4 + 2"
proof -
  define W where "W = xmax (route_bb s n) - xmin (route_bb s n) + 1"
  define H where "H = ymax (route_bb s n) - ymin (route_bb s n) + 1"
  have W: "0 < W" "W < 2 ^ 31" and H: "0 < H" "H < 2 ^ 31"
    using bx byy by (simp_all add: W_def H_def)
  have sW: "size_t_of_int W = W" and sH: "size_t_of_int H = H"
    using W H by (simp_all add: size_t_of_int_def)
  have bW: "0 \<le> W div 5" "W div 5 < 2 ^ 31" and bH: "0 \<le> H div 5" "H div 5 < 2 ^ 31"
    using W H by simp_all
  have iW: "int_of_size_t (W div 5) = W div 5" and iH: "int_of_size_t (H div 5) = H div 5"
    using bW bH by (simp_all add: int_of_size_t_def)
  have m: "0 \<le> max (2 * (W div 5 + H div 5) - 4) 4"
          "max (2 * (W div 5 + H div 5) - 4) 4 < 2 ^ 64"
    using bW bH by simp_all
  have sm: "size_t_of_int (max (2 * (W div 5 + H div 5) - 4) 4)
            = max (2 * (W div 5 + H div 5) - 4) 4"
    using m by (simp add: size_t_of_int_def)
  have w: "is_worth_decomposing e s n p axis = Inr True"
    using ok by (auto simp: should_decompose_net_def split: if_splits sum.splits)
  have "\<not> int (length (net_rr_terminals e n)) \<le>
      size_t_of_int (max (2 * (int_of_size_t (size_t_of_int W div 5)
                              + int_of_size_t (size_t_of_int H div 5)) - 4) 4) + 2"
    using w unfolding is_worth_decomposing_def Let_def MIN_DECOMP_BIN_WIDTH_def W_def H_def
    by (simp split: if_splits)
  then have "int (length (net_rr_terminals e n)) > max (2 * (W div 5 + H div 5) - 4) 4 + 2"
    unfolding sW sH iW iH sm by simp
  then show ?thesis using wf by (simp add: W_def H_def)
qed

theorem sink_threshold_terminals_witness:
  "int (length (net_rr_terminals demo_env 0)) > max (2 * ((14 - 0 + 1) div 5 + (14 - 0 + 1) div 5) - 4) 4 + 2
   \<and> int (net_num_sinks demo_env 0) \<ge> max (2 * ((14 - 0 + 1) div 5 + (14 - 0 + 1) div 5) - 4) 4 + 2"
proof -
  have ok: "should_decompose_net demo_env demo_state 0 0 7 X = Inr True
          \<or> is_worth_decomposing demo_env demo_state 0 7 X = Inr True"
    by (simp add: is_worth_decomposing_def should_decompose_net_def demo_env_def demo_state_def
        size_t_of_int_def int_of_size_t_def MIN_DECOMP_BIN_WIDTH_def MAX_DECOMP_REROUTE_def Let_def)
  have wf: "length (net_rr_terminals demo_env 0) = net_num_sinks demo_env 0 + 1"
    by (simp add: demo_env_def)
  show ?thesis
    using sink_threshold_terminals [OF ok _ _ _ _ wf] by (simp add: demo_state_def)
qed

section \<open>Flags of routing one net\<close>

lemma should_really_route_net_iff:
  "should_really_route_net e s n \<longleftrightarrow> \<not> needs_no_routing e s n"
  by (auto simp: should_really_route_net_def needs_no_routing_def Let_def)

lemma rerouted_nets_set [simp]:
  "rerouted_nets (set_is_routable b node) = rerouted_nets node"
  "rerouted_nets (set_rerouted_nets rr node) = rr"
  by (cases node; simp add: set_is_routable_def set_rerouted_nets_def)+

text \<open>
  Claim C10: \<^verbatim>\<open>try_parallel_route_net\<close> returns success without \<open>was_rerouted\<close>, and
  leaves the state as it is, for a net that is fixed, ignored, or needs no rerouting.
  Otherwise it calls the connection router and returns \<open>was_rerouted = true\<close> with the
  router's own success flag, so that a net whose routing failed is still appended to
  \<open>rerouted_nets\<close> of the node that routes it.
\<close>

theorem try_parallel_route_net_flags:
  "(needs_no_routing e s n \<longrightarrow>
      try_parallel_route_net e n level s
        = (\<lparr>success = True, was_rerouted = False, retry_with_full_bb = False\<rparr>, s))
   \<and> (\<not> needs_no_routing e s n \<longrightarrow>
        was_rerouted (fst (try_parallel_route_net e n level s))
        \<and> success (fst (try_parallel_route_net e n level s))
            = success (fst (timing_driven_route_net e n (route_bb s n) (route_trees s n) (rr_state s)))
        \<and> (should_decompose_net e s n level (cutline_pos node) (cutline_axis node) = Inr False \<longrightarrow>
             (\<exists>node' s'. route_node_net e level n (node, s) = Inr (node', s')
                \<and> rerouted_nets node' = rerouted_nets node @ [n])))"
  by (auto simp: try_parallel_route_net_def should_really_route_net_iff default_flags_def
      route_node_net_def route_net_here_def Let_def split: prod.splits)

lemma demo_leaf_not_decomposed:
  "should_decompose_net failing_env demo_state 0 0 (cutline_pos (leaf_node [0])) (cutline_axis (leaf_node [0]))
     = Inr False"
  by (simp add: is_worth_decomposing_def should_decompose_net_def demo_env_def demo_state_def
      failing_env_def leaf_node_def
      size_t_of_int_def int_of_size_t_def MIN_DECOMP_BIN_WIDTH_def MAX_DECOMP_REROUTE_def Let_def)

theorem try_parallel_route_net_flags_witness:
  "try_parallel_route_net (demo_env\<lparr>net_is_fixed := (\<lambda>_. True)\<rparr>) 0 0 demo_state
     = (\<lparr>success = True, was_rerouted = False, retry_with_full_bb = False\<rparr>, demo_state)
   \<and> \<not> needs_no_routing failing_env demo_state 0
   \<and> was_rerouted (fst (try_parallel_route_net failing_env 0 0 demo_state))
   \<and> \<not> success (fst (try_parallel_route_net failing_env 0 0 demo_state))
   \<and> (\<exists>node' s'. route_node_net failing_env 0 0 (leaf_node [0], demo_state) = Inr (node', s')
        \<and> rerouted_nets node' = [0])"
proof -
  have a: "needs_no_routing (demo_env\<lparr>net_is_fixed := (\<lambda>_. True)\<rparr>) demo_state 0"
    by (simp add: needs_no_routing_def)
  have b: "\<not> needs_no_routing failing_env demo_state 0"
    by (simp add: needs_no_routing_def failing_env_def demo_env_def demo_state_def)
  have c: "\<not> success (fst (timing_driven_route_net failing_env 0 (route_bb demo_state 0)
             (route_trees demo_state 0) (rr_state demo_state)))"
    by (simp add: failing_env_def default_flags_def)
  show ?thesis
    using try_parallel_route_net_flags [of "demo_env\<lparr>net_is_fixed := (\<lambda>_. True)\<rparr>" demo_state 0 0 "leaf_node [0]"]
      try_parallel_route_net_flags [of failing_env demo_state 0 0 "leaf_node [0]"]
      a b c demo_leaf_not_decomposed
    by (simp add: leaf_node_def)
qed

section \<open>Node flags and their reduction\<close>

lemma is_routable_set [simp]:
  "is_routable (set_is_routable b node) = b"
  "is_routable (set_rerouted_nets rr node) = is_routable node"
  "is_routable (set_nets ns node) = is_routable node"
  "is_routable (set_children l r node) = is_routable node"
  by (cases node; simp add: set_is_routable_def set_rerouted_nets_def set_nets_def set_children_def)+

lemma route_node_net_direct:
  assumes "direct_route_state e level n node s = Some s1"
  shows "\<exists>node' s'. route_node_net e level n (node, s) = Inr (node', s')
           \<and> is_routable node' =
               (is_routable node \<and> (success (fst (try_parallel_route_net e n level s1))
                                     \<or> retry_with_full_bb (fst (try_parallel_route_net e n level s1))))"
  using assms
  by (auto simp: direct_route_state_def route_node_net_def route_net_here_def Let_def
      split: sum.splits if_splits option.splits prod.splits)

lemma route_node_net_stays_marked:
  "route_node_net e level n (node, s) = Inr (node', s') \<Longrightarrow> \<not> is_routable node \<Longrightarrow> \<not> is_routable node'"
  by (auto simp: route_node_net_def route_net_here_def Let_def
      split: sum.splits if_splits option.splits prod.splits)

lemma route_node_nets_stays_marked:
  "route_node_nets e level ns (node, s) = Inr (node', s') \<Longrightarrow> \<not> is_routable node \<Longrightarrow> \<not> is_routable node'"
proof (induction ns arbitrary: node s)
  case Nil
  then show ?case by simp
next
  case (Cons a ns)
  then show ?case
    by (auto split: sum.splits dest: route_node_net_stays_marked)
qed

lemma reduce_is_routable:
  "res_is_routable (reduce_partition_tree_helper t r0)
     = (res_is_routable r0 \<and> list_all is_routable (tree_nodes t))"
proof (induction t arbitrary: r0)
  case (PartitionTreeNode ns l r ir rr ax p vn)
  show ?case
    by (cases l; cases r) (auto simp: PartitionTreeNode Let_def)
qed

lemma helper_is_routable:
  "decompose_route_partition_tree_helper e node level s = Inr (node', s') \<Longrightarrow>
     \<exists>node1 s1. route_node e level node s = Inr (node1, s1) \<and> is_routable node' = is_routable node1"
  by (subst (asm) decompose_route_partition_tree_helper.simps)
     (auto split: sum.splits option.splits prod.splits)

lemmas vnet_eval_defs = route_virtual_net_def get_vnet_remaining_isinks_def rr_terminal_def
  inside_bb_def

lemma vnet_fail_flags:
  "map_sum id fst (route_virtual_net sink_fail_env left_vnet 0 tree_state)
     = Inr \<lparr>success = False, was_rerouted = False, retry_with_full_bb = False\<rparr>"
  by (simp add: eval_defs vnet_eval_defs sink_fail_env_def tree_state_def left_vnet_def
      demo_env_def demo_state_def)

text \<open>
  Claim C9, as stated, at a concrete input: a virtual net whose routing fails without a
  request for a retry leaves its node routable, and the reduced result of the iteration
  is routable too.
\<close>

theorem vnet_failure_counterexample:
  "map_sum id fst (route_virtual_net sink_fail_env left_vnet 0 tree_state)
     = Inr \<lparr>success = False, was_rerouted = False, retry_with_full_bb = False\<rparr>
   \<and> map_sum id (is_routable \<circ> fst \<circ> snd)
        (decompose_route_partition_tree sink_fail_env
           (Some (PartitionTreeNode [] None None False [] X (- 1) [left_vnet])) tree_state)
     = Inr True
   \<and> map_sum id (res_is_routable \<circ> fst)
        (decompose_route_partition_tree sink_fail_env
           (Some (PartitionTreeNode [] None None False [] X (- 1) [left_vnet])) tree_state)
     = Inr True"
  by (simp add: eval_defs vnet_eval_defs sink_fail_env_def tree_state_def left_vnet_def
      demo_env_def demo_state_def)

text \<open>
  Claim C9, amended: a net routed at a node with \<open>success = false\<close> and
  \<open>retry_with_full_bb = false\<close> marks the node non-routable, and the mark stays through
  the rest of the node's nets; a virtual net with such a result leaves the node as it is
  and sets the retry counter of its net to \<open>MAX_DECOMP_REROUTE = 5\<close>; the flag of a node
  in the final tree is the one its own task computed, and the reduction makes the
  iteration's \<open>is_routable\<close> the conjunction of the flags of all nodes.
\<close>

theorem node_flags_and_reduction:
  "(direct_route_state e level n node s = Some s1 \<longrightarrow>
      \<not> success (fst (try_parallel_route_net e n level s1)) \<longrightarrow>
      \<not> retry_with_full_bb (fst (try_parallel_route_net e n level s1)) \<longrightarrow>
      (\<exists>node' s'. route_node_net e level n (node, s) = Inr (node', s') \<and> \<not> is_routable node'
         \<and> (\<forall>rest node'' s''. route_node_nets e level rest (node', s') = Inr (node'', s'')
               \<longrightarrow> \<not> is_routable node'')))
   \<and> (route_virtual_net e vnet level s = Inr (flags, s2) \<longrightarrow>
        \<not> success flags \<longrightarrow> \<not> retry_with_full_bb flags \<longrightarrow>
        route_node_vnets e level (vnet # vrest) s
          = route_node_vnets e level vrest
              (s2\<lparr>decomp_retries := (decomp_retries s2)(net_id vnet := 5)\<rparr>))
   \<and> (decompose_route_partition_tree_helper e node level s = Inr (nodeh, sh) \<longrightarrow>
        (\<exists>node1 s1. route_node e level node s = Inr (node1, s1)
           \<and> is_routable nodeh = is_routable node1))
   \<and> (decompose_route_partition_tree e tree s0 = Inr (out, rt', sf) \<longrightarrow>
        res_is_routable out = list_all is_routable (tree_nodes rt'))"
proof (intro conjI impI)
  assume a: "direct_route_state e level n node s = Some s1"
    and b: "\<not> success (fst (try_parallel_route_net e n level s1))"
    and c: "\<not> retry_with_full_bb (fst (try_parallel_route_net e n level s1))"
  from route_node_net_direct [OF a] b c
  obtain node' s' where r: "route_node_net e level n (node, s) = Inr (node', s')"
    and m: "\<not> is_routable node'" by auto
  show "\<exists>node' s'. route_node_net e level n (node, s) = Inr (node', s') \<and> \<not> is_routable node'
         \<and> (\<forall>rest node'' s''. route_node_nets e level rest (node', s') = Inr (node'', s'')
               \<longrightarrow> \<not> is_routable node'')"
    using r m route_node_nets_stays_marked by blast
next
  assume "route_virtual_net e vnet level s = Inr (flags, s2)"
    "\<not> success flags" "\<not> retry_with_full_bb flags"
  then show "route_node_vnets e level (vnet # vrest) s
          = route_node_vnets e level vrest
              (s2\<lparr>decomp_retries := (decomp_retries s2)(net_id vnet := 5)\<rparr>)"
    by (simp add: MAX_DECOMP_REROUTE_def)
next
  assume "decompose_route_partition_tree_helper e node level s = Inr (nodeh, sh)"
  then show "\<exists>node1 s1. route_node e level node s = Inr (node1, s1)
           \<and> is_routable nodeh = is_routable node1"
    by (rule helper_is_routable)
next
  assume "decompose_route_partition_tree e tree s0 = Inr (out, rt', sf)"
  then show "res_is_routable out = list_all is_routable (tree_nodes rt')"
    by (auto simp: decompose_route_partition_tree_def reduce_is_routable
        split: option.splits sum.splits)
qed

lemma failing_run:
  "decompose_route_partition_tree failing_env (Some (leaf_node [0])) demo_state
   = Inr (\<lparr>res_is_routable = False, res_rerouted_nets = [0]\<rparr>,
          PartitionTreeNode [0] None None False [0] X (- 1) [],
          demo_state)"
  by (simp add: eval_defs failing_env_def demo_env_def demo_state_def)

lemma failing_direct:
  "direct_route_state failing_env 0 0 (leaf_node [0]) demo_state = Some demo_state"
  "fst (try_parallel_route_net failing_env 0 0 demo_state)
     = \<lparr>success = False, was_rerouted = True, retry_with_full_bb = False\<rparr>"
  by (simp_all add: direct_route_state_def eval_defs failing_env_def demo_env_def demo_state_def)

theorem node_flags_and_reduction_witness:
  "(\<exists>node' s'. route_node_net failing_env 0 0 (leaf_node [0], demo_state) = Inr (node', s')
      \<and> \<not> is_routable node')
   \<and> map_sum id (\<lambda>s. decomp_retries s 0) (route_node_vnets sink_fail_env 0 [left_vnet] tree_state)
       = Inr 5
   \<and> (\<exists>out rt' sf. decompose_route_partition_tree failing_env (Some (leaf_node [0])) demo_state
                      = Inr (out, rt', sf)
        \<and> \<not> res_is_routable out \<and> \<not> list_all is_routable (tree_nodes rt'))"
proof -
  obtain flags s2 where v: "route_virtual_net sink_fail_env left_vnet 0 tree_state = Inr (flags, s2)"
    and f: "\<not> success flags" "\<not> retry_with_full_bb flags"
    using vnet_fail_flags
    by (cases "route_virtual_net sink_fail_env left_vnet 0 tree_state") auto
  have h: "decompose_route_partition_tree_helper failing_env (leaf_node [0]) 0 demo_state
           = Inr (PartitionTreeNode [0] None None False [0] X (- 1) [], demo_state)"
    by (simp add: eval_defs failing_env_def demo_env_def demo_state_def)
  note t1 = node_flags_and_reduction [where e = failing_env and level = 0 and n = 0
      and node = "leaf_node [0]" and s = demo_state and ?s1.0 = demo_state
      and tree = "Some (leaf_node [0])" and ?s0.0 = demo_state
      and out = "\<lparr>res_is_routable = False, res_rerouted_nets = [0]\<rparr>"
      and rt' = "PartitionTreeNode [0] None None False [0] X (- 1) []" and sf = demo_state]
  note t2 = node_flags_and_reduction [where e = sink_fail_env and level = 0
      and s = tree_state and vnet = left_vnet and flags = flags and ?s2.0 = s2 and vrest = "[]"]
  have w1: "\<exists>node' s'. route_node_net failing_env 0 0 (leaf_node [0], demo_state) = Inr (node', s')
      \<and> \<not> is_routable node'"
    using t1 [THEN conjunct1] failing_direct by auto
  have w2: "map_sum id (\<lambda>s. decomp_retries s 0) (route_node_vnets sink_fail_env 0 [left_vnet] tree_state)
       = Inr 5"
    using t2 [THEN conjunct2, THEN conjunct1] v f by (simp add: left_vnet_def)
  have w3: "\<not> list_all is_routable (tree_nodes (PartitionTreeNode [0] None None False [0] X (- 1) []))"
    using t1 [THEN conjunct2, THEN conjunct2, THEN conjunct2] failing_run by simp
  show ?thesis
    using w1 w2 w3 failing_run by simp
qed

section \<open>Net decomposition\<close>

lemmas decomp_eval_defs = route_and_decompose_def get_decomposition_isinks_def sample_bin_def
  rr_terminal_def make_decomposed_pair_def which_side_def clip_to_side_def Side_of_bool_def
  other_side_def REACHED_def NONE_def should_really_route_net_def should_decompose_net_def
  is_worth_decomposing_def size_t_of_int_def int_of_size_t_def MIN_DECOMP_BIN_WIDTH_def
  MAX_DECOMP_REROUTE_def default_flags_def Let_def

text \<open>
  Claim C8, as stated, at a concrete input: the router fails on the first skeleton sink,
  \<^verbatim>\<open>route_and_decompose\<close> returns the empty optional, and the retry counters are what they
  were.
\<close>

theorem skeleton_failure_counterexample:
  "should_decompose_net sink_fail_env tree_state 0 0 7 X = Inr True
   \<and> map_sum id fst (route_and_decompose sink_fail_env 0 cut_node tree_state) = Inr None
   \<and> map_sum id (decomp_retries \<circ> snd) (route_and_decompose sink_fail_env 0 cut_node tree_state)
       = Inr (decomp_retries tree_state)
   \<and> decomp_retries tree_state 0 \<noteq> decomp_retries tree_state 0 + 1"
  by (simp add: decomp_eval_defs sink_fail_env_def tree_state_def cut_node_def
      demo_env_def demo_state_def)

text \<open>
  Claim C8, amended: if routing one of the selected skeleton sinks fails,
  \<^verbatim>\<open>route_and_decompose\<close> returns the empty optional and leaves the retry counters, the
  bounding boxes and the nets to retry as they were; the dispatcher then routes the net
  at the current node.
\<close>

theorem skeleton_failure_aborts:
  assumes sr: "should_really_route_net e s n"
    and su: "setup_routing_resources e n (route_trees s n) (rr_state s) = (Some tree, w1)"
    and gi: "get_decomposition_isinks e (s\<lparr>route_trees := (route_trees s)(n := Some tree), rr_state := w1\<rparr>) n
               (sort_by_criticality e n (remaining_isinks tree)) = Inr isinks"
    and fail: "\<not> fst (route_skeleton e n (route_bb s n) isinks tree w1)"
  shows "\<exists>s'. route_and_decompose e n node s = Inr (None, s')
           \<and> decomp_retries s' = decomp_retries s
           \<and> route_bb s' = route_bb s
           \<and> nets_to_retry s' = nets_to_retry s
           \<and> (should_decompose_net e s n level (cutline_pos node) (cutline_axis node) = Inr True
                \<longrightarrow> route_node_net e level n (node, s) = route_net_here e level n (node, s'))"
  using assms
  by (auto simp: route_and_decompose_def route_node_net_def Let_def split: prod.splits)

theorem skeleton_failure_aborts_witness:
  "\<exists>s'. route_and_decompose sink_fail_env 0 cut_node tree_state = Inr (None, s')
      \<and> decomp_retries s' 0 = 0
      \<and> route_node_net sink_fail_env 0 0 (cut_node, tree_state)
          = route_net_here sink_fail_env 0 0 (cut_node, s')"
proof -
  let ?tree = "\<lparr>root_inode = 0, reached_isinks = [], remaining_isinks = [1, 2, 3, 4, 5, 6, 7, 8, 9, 10]\<rparr>"
  have sr: "should_really_route_net sink_fail_env tree_state 0"
    by (simp add: decomp_eval_defs sink_fail_env_def tree_state_def demo_env_def demo_state_def)
  have su: "setup_routing_resources sink_fail_env 0 (route_trees tree_state 0) (rr_state tree_state)
            = (Some ?tree, ())"
    by (simp add: sink_fail_env_def tree_state_def demo_env_def demo_state_def)
  have gi: "get_decomposition_isinks sink_fail_env
              (tree_state\<lparr>route_trees := (route_trees tree_state)(0 := Some ?tree), rr_state := ()\<rparr>) 0
              (sort_by_criticality sink_fail_env 0 (remaining_isinks ?tree)) = Inr [1, 6]"
    by (simp add: decomp_eval_defs sink_fail_env_def tree_state_def demo_env_def demo_state_def)
  have fail: "\<not> fst (route_skeleton sink_fail_env 0 (route_bb tree_state 0) [1, 6] ?tree ())"
    by (simp add: sink_fail_env_def default_flags_def)
  have dec: "should_decompose_net sink_fail_env tree_state 0 0 (cutline_pos cut_node) (cutline_axis cut_node)
             = Inr True"
    by (simp add: decomp_eval_defs sink_fail_env_def tree_state_def cut_node_def
        demo_env_def demo_state_def)
  show ?thesis
    using skeleton_failure_aborts [OF sr su gi fail, of cut_node 0] dec
    by (auto simp: tree_state_def demo_state_def)
qed

lemma worth_cut_inside:
  assumes w: "is_worth_decomposing e s n p axis = Inr True"
    and bx: "xmin (route_bb s n) \<le> xmax (route_bb s n)"
            "xmax (route_bb s n) - xmin (route_bb s n) < 2 ^ 30"
    and byy: "ymin (route_bb s n) \<le> ymax (route_bb s n)"
             "ymax (route_bb s n) - ymin (route_bb s n) < 2 ^ 30"
  shows "bb_min axis (route_bb s n) \<le> p \<and> p < bb_max axis (route_bb s n)"
proof -
  define W where "W = xmax (route_bb s n) - xmin (route_bb s n) + 1"
  define H where "H = ymax (route_bb s n) - ymin (route_bb s n) + 1"
  have W: "0 < W" "W \<le> 2 ^ 30" and H: "0 < H" "H \<le> 2 ^ 30"
    using bx byy by (simp_all add: W_def H_def)
  have sW: "size_t_of_int W = W" and sH: "size_t_of_int H = H"
    using W H by (simp_all add: size_t_of_int_def)
  have bW: "0 \<le> W div 5" "W div 5 < 2 ^ 31" and bH: "0 \<le> H div 5" "H div 5 < 2 ^ 31"
    using W H by simp_all
  have iW: "int_of_size_t (W div 5) = W div 5" and iH: "int_of_size_t (H div 5) = H div 5"
    using bW bH by (simp_all add: int_of_size_t_def)
  have sbW: "size_t_of_int (W div 5) = W div 5" and sbH: "size_t_of_int (H div 5) = H div 5"
    using bW bH by (simp_all add: size_t_of_int_def)
  define bwx where "bwx = W div (W div 5) + 1"
  define bwy where "bwy = H div (H div 5) + 1"
  have "0 \<le> W div (W div 5)" "W div (W div 5) \<le> W" "0 \<le> H div (H div 5)" "H div (H div 5) \<le> H"
    using W H bW bH by (simp_all add: int_div_le_self div_int_pos_iff)
  then have bw: "1 \<le> bwx" "bwx < 2 ^ 31" "1 \<le> bwy" "bwy < 2 ^ 31"
    using W H by (simp_all add: bwx_def bwy_def)
  have ibw: "int_of_size_t bwx = bwx" "int_of_size_t bwy = bwy"
    using bw by (simp_all add: int_of_size_t_def)
  note unf = is_worth_decomposing_def Let_def MIN_DECOMP_BIN_WIDTH_def W_def H_def
  note eqs = sW sH iW iH sbW sbH bwx_def [symmetric] bwy_def [symmetric] ibw
  show ?thesis
  proof (cases axis)
    case X
    have "\<not> xmax (route_bb s n) - p < int_of_size_t (size_t_of_int W div size_t_of_int (int_of_size_t (size_t_of_int W div 5)) + 1)
        \<and> \<not> p - xmin (route_bb s n) + 1 < int_of_size_t (size_t_of_int H div size_t_of_int (int_of_size_t (size_t_of_int H div 5)) + 1)"
      using w X unfolding unf by (simp split: if_splits)
    then have "\<not> xmax (route_bb s n) - p < bwx \<and> \<not> p - xmin (route_bb s n) + 1 < bwy"
      unfolding eqs .
    then show ?thesis using bw X by (simp add: bb_min_def bb_max_def)
  next
    case Y
    have "\<not> ymax (route_bb s n) - p < int_of_size_t (size_t_of_int W div size_t_of_int (int_of_size_t (size_t_of_int W div 5)) + 1)
        \<and> \<not> p - ymin (route_bb s n) + 1 < int_of_size_t (size_t_of_int H div size_t_of_int (int_of_size_t (size_t_of_int H div 5)) + 1)"
      using w Y unfolding unf by (simp split: if_splits)
    then have "\<not> ymax (route_bb s n) - p < bwx \<and> \<not> p - ymin (route_bb s n) + 1 < bwy"
      unfolding eqs .
    then show ?thesis using bw Y by (simp add: bb_min_def bb_max_def)
  qed
qed

lemma right_run:
  "route_and_decompose right_env 0 cut_node tree_state
   = Inr (Some (\<lparr>net_id = 0, clipped_bb = \<lparr>xmin = 0, xmax = 7, ymin = 0, ymax = 14\<rparr>\<rparr>,
                \<lparr>net_id = 0, clipped_bb = \<lparr>xmin = 8, xmax = 14, ymin = 0, ymax = 14\<rparr>\<rparr>),
          tree_state\<lparr>route_trees := (route_trees tree_state)
                        (0 := Some \<lparr>root_inode = 0, reached_isinks = [1, 4, 6, 7],
                                     remaining_isinks = [2, 3, 5, 8, 9, 10]\<rparr>),
                      decomp_retries := (decomp_retries tree_state)(0 := 1)\<rparr>)"
  by (simp add: decomp_eval_defs right_env_def tree_state_def cut_node_def
      demo_env_def demo_state_def)

lemma right_dec:
  "should_decompose_net right_env tree_state 0 0 (cutline_pos cut_node) (cutline_axis cut_node) = Inr True"
  by (simp add: decomp_eval_defs right_env_def tree_state_def cut_node_def
      demo_env_def demo_state_def)

text \<open>
  Claim C3, as stated, at a concrete input: the source of the net is left of the cutline
  and all its sinks are right of it; \<^verbatim>\<open>route_and_decompose\<close> succeeds, and the route tree
  reaches no sink on the left side.
\<close>

theorem decomposition_sides_counterexample:
  "should_decompose_net right_env tree_state 0 0 (cutline_pos cut_node) (cutline_axis cut_node) = Inr True
   \<and> map_sum id fst (route_and_decompose right_env 0 cut_node tree_state)
       = Inr (Some (\<lparr>net_id = 0, clipped_bb = \<lparr>xmin = 0, xmax = 7, ymin = 0, ymax = 14\<rparr>\<rparr>,
                    \<lparr>net_id = 0, clipped_bb = \<lparr>xmin = 8, xmax = 14, ymin = 0, ymax = 14\<rparr>\<rparr>))
   \<and> map_sum id (reaches_sink_on right_env 0 7 X LEFT \<circ> snd)
        (route_and_decompose right_env 0 cut_node tree_state) = Inr False
   \<and> map_sum id (reaches_sink_on right_env 0 7 X RIGHT \<circ> snd)
        (route_and_decompose right_env 0 cut_node tree_state) = Inr True"
  by (simp add: decomp_eval_defs reaches_sink_on_def right_env_def tree_state_def cut_node_def
      demo_env_def demo_state_def)

text \<open>
  Claim C3, amended: whenever \<^verbatim>\<open>route_and_decompose\<close> succeeds on a net that
  \<^verbatim>\<open>should_decompose_net\<close> accepted at a node with cutline \<open>(axis, pos)\<close>, both virtual nets
  carry the identity of the net; the first is the bounding box of the net clipped to the
  left/up side (\<open>max[axis] = pos\<close>), the second the one clipped to the right/down side
  (\<open>min[axis] = pos + 1\<close>); both lie inside the bounding box of the net and differ from it,
  and neither is empty along the axis; the bounding box of the net is unchanged and its
  retry counter is one higher.
\<close>

theorem decomposed_pair_clipped:
  assumes dec: "should_decompose_net e s n level (cutline_pos node) (cutline_axis node) = Inr True"
    and bx: "xmin (route_bb s n) \<le> xmax (route_bb s n)"
            "xmax (route_bb s n) - xmin (route_bb s n) < 2 ^ 30"
    and byy: "ymin (route_bb s n) \<le> ymax (route_bb s n)"
             "ymax (route_bb s n) - ymin (route_bb s n) < 2 ^ 30"
    and ok: "route_and_decompose e n node s = Inr (Some (vl, vr), s')"
  shows "net_id vl = n \<and> net_id vr = n
       \<and> route_bb s' n = route_bb s n
       \<and> decomp_retries s' n = decomp_retries s n + 1
       \<and> clipped_bb vl = clip_to_side (route_bb s n) (cutline_axis node) (cutline_pos node) LEFT
       \<and> clipped_bb vr = clip_to_side (route_bb s n) (cutline_axis node) (cutline_pos node) RIGHT
       \<and> bb_max (cutline_axis node) (clipped_bb vl) = cutline_pos node
       \<and> bb_min (cutline_axis node) (clipped_bb vr) = cutline_pos node + 1
       \<and> bb_inside (clipped_bb vl) (route_bb s n) \<and> clipped_bb vl \<noteq> route_bb s n
       \<and> bb_inside (clipped_bb vr) (route_bb s n) \<and> clipped_bb vr \<noteq> route_bb s n
       \<and> bb_min (cutline_axis node) (clipped_bb vl) \<le> bb_max (cutline_axis node) (clipped_bb vl)
       \<and> bb_min (cutline_axis node) (clipped_bb vr) \<le> bb_max (cutline_axis node) (clipped_bb vr)"
proof -
  have w: "is_worth_decomposing e s n (cutline_pos node) (cutline_axis node) = Inr True"
    using dec by (auto simp: should_decompose_net_def split: if_splits sum.splits)
  note inside = worth_cut_inside [OF w bx byy]
  from ok obtain s3 where mk: "make_decomposed_pair e s3 n (cutline_pos node) (cutline_axis node) = Inr (vl, vr)"
    and s3: "route_bb s3 = route_bb s" "decomp_retries s3 n = decomp_retries s n + 1" "s' = s3"
    by (auto simp: route_and_decompose_def Let_def split: if_splits prod.splits option.splits sum.splits)
  from mk have v: "net_id vl = n" "net_id vr = n"
    "clipped_bb vl = clip_to_side (route_bb s n) (cutline_axis node) (cutline_pos node) LEFT"
    "clipped_bb vr = clip_to_side (route_bb s n) (cutline_axis node) (cutline_pos node) RIGHT"
    by (auto simp: make_decomposed_pair_def Let_def s3 other_side_def
        split: option.splits if_splits Side.splits)
  show ?thesis
  proof (cases "cutline_axis node")
    case X
    then show ?thesis
      using inside v s3
      by (cases "route_bb s n") (auto simp: clip_to_side_def bb_min_def bb_max_def bb_inside_def)
  next
    case Y
    then show ?thesis
      using inside v s3
      by (cases "route_bb s n") (auto simp: clip_to_side_def bb_min_def bb_max_def bb_inside_def)
  qed
qed

theorem decomposed_pair_clipped_witness:
  "\<exists>vl vr s'. route_and_decompose right_env 0 cut_node tree_state = Inr (Some (vl, vr), s')
     \<and> net_id vl = 0 \<and> net_id vr = 0
     \<and> clipped_bb vl = \<lparr>xmin = 0, xmax = 7, ymin = 0, ymax = 14\<rparr>
     \<and> clipped_bb vr = \<lparr>xmin = 8, xmax = 14, ymin = 0, ymax = 14\<rparr>
     \<and> bb_inside (clipped_bb vl) (route_bb tree_state 0)
     \<and> bb_inside (clipped_bb vr) (route_bb tree_state 0)
     \<and> decomp_retries s' 0 = 1"
proof -
  have b: "xmin (route_bb tree_state 0) \<le> xmax (route_bb tree_state 0)"
    "xmax (route_bb tree_state 0) - xmin (route_bb tree_state 0) < 2 ^ 30"
    "ymin (route_bb tree_state 0) \<le> ymax (route_bb tree_state 0)"
    "ymax (route_bb tree_state 0) - ymin (route_bb tree_state 0) < 2 ^ 30"
    by (simp_all add: tree_state_def demo_state_def)
  let ?vl = "\<lparr>net_id = 0, clipped_bb = \<lparr>xmin = 0, xmax = 7, ymin = 0, ymax = 14\<rparr>\<rparr>"
  let ?vr = "\<lparr>net_id = 0, clipped_bb = \<lparr>xmin = 8, xmax = 14, ymin = 0, ymax = 14\<rparr>\<rparr>"
  let ?s' = "tree_state\<lparr>route_trees := (route_trees tree_state)
                        (0 := Some \<lparr>root_inode = 0, reached_isinks = [1, 4, 6, 7],
                                     remaining_isinks = [2, 3, 5, 8, 9, 10]\<rparr>),
                      decomp_retries := (decomp_retries tree_state)(0 := 1)\<rparr>"
  note t = decomposed_pair_clipped [OF right_dec b right_run]
  have i: "bb_inside (clipped_bb ?vl) (route_bb tree_state 0)"
    "bb_inside (clipped_bb ?vr) (route_bb tree_state 0)"
    using t by blast+
  have "net_id ?vl = 0 \<and> net_id ?vr = 0
     \<and> clipped_bb ?vl = \<lparr>xmin = 0, xmax = 7, ymin = 0, ymax = 14\<rparr>
     \<and> clipped_bb ?vr = \<lparr>xmin = 8, xmax = 14, ymin = 0, ymax = 14\<rparr>
     \<and> bb_inside (clipped_bb ?vl) (route_bb tree_state 0)
     \<and> bb_inside (clipped_bb ?vr) (route_bb tree_state 0)
     \<and> decomp_retries ?s' 0 = 1"
    using i by simp
  with right_run show ?thesis by blast
qed

section \<open>Properties of the partition tree\<close>

lemma build_helper_Nil: "build_helper e s [] x1 y1 x2 y2 = Inr None"
  by (simp add: build_helper.simps)


lemma build_helper_Some_cases:
  assumes "build_helper e s ns x1 y1 x2 y2 = Inr (Some t)"
  obtains (leaf) "t = leaf_node ns" "fst (snd (choose_cutline e s ns x1 y1 x2 y2)) = - 1"
  | (cut) ax p l r m lt rt a1 b1 c1 d1 a2 b2 c2 d2
    where "snd (choose_cutline e s ns x1 y1 x2 y2) = (p, ax)" "p \<noteq> - 1"
      "partition_nets s ax p ns = Inr (l, r, m)"
      "build_helper e s l a1 b1 c1 d1 = Inr lt" "build_helper e s r a2 b2 c2 d2 = Inr rt"
      "t = PartitionTreeNode m lt rt False [] ax p []"
      "length l < length ns" "length r < length ns"
proof -
  have rg: "x1 < x2" "y1 < y2" "ns \<noteq> []"
    using assms by (subst (asm) build_helper.simps; simp split: if_splits)+
  let ?c = "choose_cutline e s ns x1 y1 x2 y2"
  show ?thesis
  proof (cases "fst (snd ?c) = - 1")
    case True
    then have "t = leaf_node ns"
      using assms rg by (subst (asm) build_helper.simps) (simp add: Let_def)
    then show ?thesis using True by (rule leaf)
  next
    case False
    obtain parts where parts: "partition_nets s (snd (snd ?c)) (fst (snd ?c)) ns = Inr parts"
      using assms rg False
      by (subst (asm) build_helper.simps)
         (cases "snd (snd ?c)"; auto simp: Let_def split: sum.splits)
    note prog = cut_makes_progress [OF rg(1,2) False parts]
    obtain l r m where p: "parts = (l, r, m)" by (cases parts) auto
    show ?thesis
    proof (cases "snd (snd ?c)")
      case X
      with assms rg False parts p obtain lt rt where
        "build_helper e s l x1 y1 (fst (snd ?c)) y2 = Inr lt"
        "build_helper e s r (fst (snd ?c)) y2 x2 y2 = Inr rt"
        "t = PartitionTreeNode m lt rt False [] X (fst (snd ?c)) []"
        by (subst (asm) build_helper.simps) (auto simp: Let_def split: sum.splits)
      then show ?thesis
        using cut [of "fst (snd ?c)" X l r m _ _ _ _ lt _ _ _ _ rt] False parts p X prog
        by (simp add: prod_eq_iff)
    next
      case Y
      with assms rg False parts p obtain lt rt where
        "build_helper e s l x1 (fst (snd ?c)) x2 y2 = Inr lt"
        "build_helper e s r x1 y1 x2 (fst (snd ?c)) = Inr rt"
        "t = PartitionTreeNode m lt rt False [] Y (fst (snd ?c)) []"
        by (subst (asm) build_helper.simps) (auto simp: Let_def split: sum.splits)
      then show ?thesis
        using cut [of "fst (snd ?c)" Y l r m _ _ _ _ lt _ _ _ _ rt] False parts p Y prog
        by (simp add: prod_eq_iff)
    qed
  qed
qed

lemma partition_nets_mset:
  "partition_nets s axis p ns = Inr (l, r, m) \<Longrightarrow> mset l + mset r + mset m = mset ns"
proof (induction ns arbitrary: l r m)
  case Nil
  then show ?case by simp
next
  case (Cons a ns)
  then show ?case
    by (auto simp: Let_def split: if_splits sum.splits)
qed

lemma partition_nets_placement:
  assumes "partition_nets s axis p ns = Inr (l, r, m)" and "n \<in> set ns"
  shows "n \<in> set m \<longleftrightarrow> bb_min axis (route_bb s n) \<le> p \<and> p \<le> bb_max axis (route_bb s n)"
    and "n \<in> set l \<longleftrightarrow> bb_max axis (route_bb s n) < p"
    and "n \<in> set r \<longleftrightarrow> bb_min axis (route_bb s n) > p"
proof -
  note f = partition_nets_filter [OF assms(1)]
  have "n \<in># mset l + mset r + mset m"
    using assms(2) by (simp add: partition_nets_mset [OF assms(1)])
  then have some: "n \<in> set l \<or> n \<in> set r \<or> n \<in> set m" by auto
  show "n \<in> set m \<longleftrightarrow> bb_min axis (route_bb s n) \<le> p \<and> p \<le> bb_max axis (route_bb s n)"
    using f assms(2) by auto
  show "n \<in> set l \<longleftrightarrow> bb_max axis (route_bb s n) < p"
    using f some by auto
  show "n \<in> set r \<longleftrightarrow> bb_min axis (route_bb s n) > p"
    using f some by auto
qed




lemma col_build:
  "PartitionTree col_env col_state
   = Inr (Some (PartitionTreeNode [2] (Some (leaf_node [0])) (Some (leaf_node [1])) False [] Y 1 []))"
  by code_simp


lemma chosen_cut_survives:
  assumes "snd (choose_cutline e s ns x1 y1 x2 y2) = (p, ax)" "p \<noteq> - 1" "x1 < x2" "y1 < y2"
  shows "\<exists>x < nat ((if ax = X then x2 else y2) - (if ax = X then x1 else y1)).
           cut_survives (total_lookup e s ax (if ax = X then x1 else y1) (if ax = X then x2 else y2) ns) x
           \<and> p = (if ax = X then x1 else y1) + int x"
  using choose_cutline_cases [of e s ns x1 y1 x2 y2] assms
  by (auto simp: total_lookup_nth(1))

text \<open>
  Claim C1 against the code: whenever the builder chooses a cutline on the X axis, the
  recursive call for the right child is made over the region \<open>[best_pos, x2) \<times> [y2, y2)\<close> of
  height 0 with at least one net, and fails the assertion \<open>W > 0 && H > 0\<close>; no tree is
  built.
\<close>

theorem x_cut_fails_assertion:
  assumes ne: "ns \<noteq> []" and rg: "x1 < x2" "y1 < y2"
    and cut: "snd (choose_cutline e s ns x1 y1 x2 y2) = (p, X)" and p: "p \<noteq> - 1"
  shows "isl (build_helper e s ns x1 y1 x2 y2)"
proof (cases "partition_nets s X p ns")
  case (Inl f)
  then show ?thesis
    using ne rg cut p by (subst build_helper.simps) (simp add: Let_def)
next
  case (Inr parts)
  obtain l r m where parts: "parts = (l, r, m)" by (cases parts) auto
  from chosen_cut_survives [OF cut p rg]
  obtain x where x: "x < nat (x2 - x1)" "cut_survives (total_lookup e s X x1 x2 ns) x" "p = x1 + int x"
    by auto
  from survivor_sides(1) [OF rg(1) x(1,2)]
  obtain n where n: "n \<in> set ns" "bb_min X (route_bb s n) > p"
    using x(3) by auto
  have "n \<in> set r"
    using partition_nets_placement(3) [OF Inr [unfolded parts] n(1)] n(2) by simp
  then have "r \<noteq> []" by auto
  then have right: "build_helper e s r p y2 x2 y2 = Inl Assertion_failed"
    by (subst build_helper.simps) simp
  show ?thesis
    using ne rg cut p Inr parts right
    by (subst build_helper.simps) (simp add: Let_def split: sum.splits)
qed

lemma row_cut: "choose_cutline row_env row_state [0, 1] 0 0 4 1 = (0, 1, X)"
  by code_simp

lemma row_build: "PartitionTree row_env row_state = Inl Assertion_failed"
  by code_simp

theorem x_cut_fails_assertion_witness:
  "choose_cutline row_env row_state [0, 1] 0 0 4 1 = (0, 1, X)
   \<and> isl (build_helper row_env row_state [0, 1] 0 0 4 1)
   \<and> PartitionTree row_env row_state = Inl Assertion_failed"
proof -
  have "isl (build_helper row_env row_state [0, 1] 0 0 4 1)"
    using x_cut_fails_assertion [of "[0, 1]" 0 4 0 1 row_env row_state 1] row_cut by simp
  then show ?thesis using row_cut row_build by simp
qed

section \<open>Choice of the cutline\<close>

lemma fold_scan_step_filter:
  "fold (scan_step axis origin tot) xs best
   = fold (\<lambda>c b. if fst c < fst b then c else b)
       (map (\<lambda>x. (\<bar>fst tot ! x - snd tot ! x\<bar>, origin + int x, axis)) (filter (cut_survives tot) xs))
       best"
  by (induction xs arbitrary: best) (simp_all add: scan_step_def cut_survives_def Let_def)

lemma choose_cutline_fold:
  "choose_cutline e s ns x1 y1 x2 y2
   = fold (\<lambda>c b. if fst c < fst b then c else b) (cut_candidates e s ns x1 y1 x2 y2) (INT_MAX, - 1, X)"
  by (simp add: choose_cutline_def scan_axis_def fold_scan_step_filter cut_candidates_def
      axis_candidates_def)

lemma fold_first_min:
  fixes cs :: "(int \<times> 'a) list"
  shows "(fold (\<lambda>c b. if fst c < fst b then c else b) cs init = init \<and> (\<forall>c \<in> set cs. fst init \<le> fst c))
   \<or> (\<exists>k < length cs. fold (\<lambda>c b. if fst c < fst b then c else b) cs init = cs ! k
         \<and> fst (cs ! k) < fst init
         \<and> (\<forall>j < length cs. fst (cs ! k) \<le> fst (cs ! j))
         \<and> (\<forall>j < k. fst (cs ! k) < fst (cs ! j)))"
proof (induction cs rule: rev_induct)
  case Nil
  then show ?case by simp
next
  case (snoc c cs)
  let ?f = "\<lambda>c b. if fst c < fst b then c else b"
  let ?r = "fold ?f cs init"
  from snoc consider
    (none) "?r = init" "\<forall>c \<in> set cs. fst init \<le> fst c"
    | (some) k where "k < length cs" "?r = cs ! k" "fst (cs ! k) < fst init"
        "\<forall>j < length cs. fst (cs ! k) \<le> fst (cs ! j)" "\<forall>j < k. fst (cs ! k) < fst (cs ! j)"
    by blast
  then show ?case
  proof cases
    case none
    have nj: "\<forall>j < length cs. fst init \<le> fst (cs ! j)"
      using none(2) by simp
    show ?thesis
    proof (cases "fst c < fst init")
      case True
      have "length cs < length (cs @ [c])" by simp
      moreover have "fold ?f (cs @ [c]) init = (cs @ [c]) ! length cs"
        using none True by simp
      moreover have "fst ((cs @ [c]) ! length cs) < fst init" using True by simp
      moreover have "\<forall>j < length (cs @ [c]). fst ((cs @ [c]) ! length cs) \<le> fst ((cs @ [c]) ! j)"
        using nj True by (fastforce simp: nth_append less_Suc_eq)
      moreover have "\<forall>j < length cs. fst ((cs @ [c]) ! length cs) < fst ((cs @ [c]) ! j)"
        using nj True by (fastforce simp: nth_append)
      ultimately show ?thesis by blast
    next
      case False
      then show ?thesis using none by auto
    qed
  next
    case some
    show ?thesis
    proof (cases "fst c < fst (cs ! k)")
      case True
      have "length cs < length (cs @ [c])" by simp
      moreover have "fold ?f (cs @ [c]) init = (cs @ [c]) ! length cs"
        using some True by simp
      moreover have "fst ((cs @ [c]) ! length cs) < fst init" using some True by simp
      moreover have "\<forall>j < length (cs @ [c]). fst ((cs @ [c]) ! length cs) \<le> fst ((cs @ [c]) ! j)"
        using some True by (fastforce simp: nth_append less_Suc_eq)
      moreover have "\<forall>j < length cs. fst ((cs @ [c]) ! length cs) < fst ((cs @ [c]) ! j)"
        using some True by (fastforce simp: nth_append)
      ultimately show ?thesis by blast
    next
      case False
      have "k < length (cs @ [c])" using some by simp
      moreover have "fold ?f (cs @ [c]) init = (cs @ [c]) ! k"
        using some False by (simp add: nth_append)
      moreover have "fst ((cs @ [c]) ! k) < fst init" using some by (simp add: nth_append)
      moreover have "\<forall>j < length (cs @ [c]). fst ((cs @ [c]) ! k) \<le> fst ((cs @ [c]) ! j)"
        using some False by (auto simp: nth_append less_Suc_eq)
      moreover have "\<forall>j < k. fst ((cs @ [c]) ! k) < fst ((cs @ [c]) ! j)"
        using some by (auto simp: nth_append)
      ultimately show ?thesis by blast
    qed
  qed
qed

lemma sum_if_bounds:
  "0 \<le> (\<Sum>n\<leftarrow>ns. if P n then int (f n) else 0)
   \<and> (\<Sum>n\<leftarrow>ns. if P n then int (f n) else 0) \<le> (\<Sum>n\<leftarrow>ns. int (f n))"
  by (induction ns) auto

lemma axis_candidates_score:
  assumes lt: "lo < hi" and c: "c \<in> set (axis_candidates axis lo (total_lookup e s axis lo hi ns))"
  shows "fst c \<le> (\<Sum>n\<leftarrow>ns. int (net_num_sinks e n))"
proof -
  from c obtain x where x: "x < nat (hi - lo)"
    and fc: "fst c = \<bar>fst (total_lookup e s axis lo hi ns) ! x - snd (total_lookup e s axis lo hi ns) ! x\<bar>"
    by (auto simp: axis_candidates_def total_lookup_nth(1) [OF lt])
  show ?thesis
    unfolding fc total_lookup_nth(3) [OF lt x] total_lookup_nth(4) [OF lt x]
    using sum_if_bounds [of "\<lambda>n. net_start s axis lo n \<le> int x" "net_num_sinks e" ns]
      sum_if_bounds [of "\<lambda>n. int x < net_end s axis lo hi n" "net_num_sinks e" ns]
    by linarith
qed

lemma cut_candidates_score:
  assumes "x1 < x2" "y1 < y2" "c \<in> set (cut_candidates e s ns x1 y1 x2 y2)"
  shows "fst c \<le> (\<Sum>n\<leftarrow>ns. int (net_num_sinks e n))"
  using assms axis_candidates_score [of x1 x2 c X e s ns] axis_candidates_score [of y1 y2 c Y e s ns]
  by (auto simp: cut_candidates_def)

text \<open>
  Claim C6: positions with \<open>before = max_before\<close> or \<open>after = max_after\<close> are no candidates
  on either axis.  If no candidate is left, the node is a leaf holding all the given nets.
  Otherwise the chosen \<open>(score, pos, axis)\<close> is a candidate of minimal score, and every
  candidate scanned before it (X before Y, ascending positions) has a strictly greater
  score: the first minimum wins.  A tree that is returned with a cutline carries the
  chosen position and axis.
\<close>

theorem cutline_choice:
  assumes ne: "ns \<noteq> []" and rg: "x1 < x2" "y1 < y2"
    and small: "(\<Sum>n\<leftarrow>ns. int (net_num_sinks e n)) < INT_MAX"
  shows "(cut_candidates e s ns x1 y1 x2 y2 = [] \<longrightarrow>
            build_helper e s ns x1 y1 x2 y2 = Inr (Some (leaf_node ns)))
       \<and> (cut_candidates e s ns x1 y1 x2 y2 \<noteq> [] \<longrightarrow>
            (\<exists>k < length (cut_candidates e s ns x1 y1 x2 y2).
               choose_cutline e s ns x1 y1 x2 y2 = cut_candidates e s ns x1 y1 x2 y2 ! k
               \<and> (\<forall>j < length (cut_candidates e s ns x1 y1 x2 y2).
                     fst (cut_candidates e s ns x1 y1 x2 y2 ! k)
                       \<le> fst (cut_candidates e s ns x1 y1 x2 y2 ! j))
               \<and> (\<forall>j < k. fst (cut_candidates e s ns x1 y1 x2 y2 ! k)
                             < fst (cut_candidates e s ns x1 y1 x2 y2 ! j))))
       \<and> (\<forall>t. build_helper e s ns x1 y1 x2 y2 = Inr (Some t) \<longrightarrow>
              fst (snd (choose_cutline e s ns x1 y1 x2 y2)) \<noteq> - 1 \<longrightarrow>
              cutline_pos t = fst (snd (choose_cutline e s ns x1 y1 x2 y2))
              \<and> cutline_axis t = snd (snd (choose_cutline e s ns x1 y1 x2 y2)))"
proof (intro conjI impI allI)
  assume "cut_candidates e s ns x1 y1 x2 y2 = []"
  then have "choose_cutline e s ns x1 y1 x2 y2 = (INT_MAX, - 1, X)"
    by (simp add: choose_cutline_fold)
  then show "build_helper e s ns x1 y1 x2 y2 = Inr (Some (leaf_node ns))"
    using ne rg by (subst build_helper.simps) simp
next
  let ?cs = "cut_candidates e s ns x1 y1 x2 y2"
  assume nonempty: "?cs \<noteq> []"
  then obtain c where c: "c \<in> set ?cs" by (cases ?cs) auto
  have "fst c < INT_MAX"
    using cut_candidates_score [OF rg c] small by simp
  then have "\<not> (\<forall>c \<in> set ?cs. fst (INT_MAX, - 1 :: int, X) \<le> fst c)"
    using c by force
  with fold_first_min [of ?cs "(INT_MAX, - 1, X)"]
  show "\<exists>k < length ?cs. choose_cutline e s ns x1 y1 x2 y2 = ?cs ! k
          \<and> (\<forall>j < length ?cs. fst (?cs ! k) \<le> fst (?cs ! j))
          \<and> (\<forall>j < k. fst (?cs ! k) < fst (?cs ! j))"
    unfolding choose_cutline_fold by blast
next
  fix t
  assume b: "build_helper e s ns x1 y1 x2 y2 = Inr (Some t)"
    and p: "fst (snd (choose_cutline e s ns x1 y1 x2 y2)) \<noteq> - 1"
  from b p show "cutline_pos t = fst (snd (choose_cutline e s ns x1 y1 x2 y2))"
    by (cases rule: build_helper_Some_cases) auto
  from b p show "cutline_axis t = snd (snd (choose_cutline e s ns x1 y1 x2 y2))"
    by (cases rule: build_helper_Some_cases) auto
qed

lemma col_candidates:
  "cut_candidates col_env col_state [0, 1, 2] 0 0 1 4 = [(0, 1, Y), (0, 2, Y)]"
  "choose_cutline col_env col_state [0, 1, 2] 0 0 1 4 = (0, 1, Y)"
  "cut_candidates col_env col_state [2] 0 0 1 4 = []"
  by code_simp+

theorem cutline_choice_witness:
  "cut_candidates col_env col_state [0, 1, 2] 0 0 1 4 = [(0, 1, Y), (0, 2, Y)]
   \<and> choose_cutline col_env col_state [0, 1, 2] 0 0 1 4 = (0, 1, Y)
   \<and> cutline_pos (PartitionTreeNode [2] (Some (leaf_node [0])) (Some (leaf_node [1])) False [] Y 1 []) = 1
   \<and> cut_candidates col_env col_state [2] 0 0 1 4 = []
   \<and> build_helper col_env col_state [2] 0 0 1 4 = Inr (Some (leaf_node [2]))"
proof -
  have small: "(\<Sum>n\<leftarrow>[0, 1, 2]. int (net_num_sinks col_env n)) < INT_MAX"
    "(\<Sum>n\<leftarrow>[2]. int (net_num_sinks col_env n)) < INT_MAX"
    by (simp_all add: col_env_def INT_MAX_def)
  have b: "build_helper col_env col_state [0, 1, 2] 0 0 1 4
     = Inr (Some (PartitionTreeNode [2] (Some (leaf_node [0])) (Some (leaf_node [1])) False [] Y 1 []))"
    using col_build by (simp add: PartitionTree_def col_env_def demo_env_def)
  note t1 = cutline_choice [of "[0, 1, 2]" 0 1 0 4 col_env col_state, OF _ _ _ small(1)]
  note t2 = cutline_choice [of "[2]" 0 1 0 4 col_env col_state, OF _ _ _ small(2)]
  have "build_helper col_env col_state [2] 0 0 1 4 = Inr (Some (leaf_node [2]))"
    using t2 col_candidates(3) by simp
  moreover have "cutline_pos (PartitionTreeNode [2] (Some (leaf_node [0])) (Some (leaf_node [1])) False [] Y 1 []) = 1"
    using t1 b col_candidates(2) by simp
  ultimately show ?thesis using col_candidates by simp
qed

section \<open>Selection of the skeleton sinks\<close>

lemma first_in_bin_subset: "set (first_in_bin bin seen xs) \<subseteq> set xs"
  by (induction xs arbitrary: seen) auto

lemma first_in_bin_unseen: "i \<in> set (first_in_bin bin seen xs) \<Longrightarrow> bin i \<notin> seen"
  by (induction xs arbitrary: seen) (auto split: if_splits)

lemma first_in_bin_distinct: "distinct (map bin (first_in_bin bin seen xs))"
  by (induction xs arbitrary: seen) (auto dest: first_in_bin_unseen)

lemma first_in_bin_covers:
  "i \<in> set xs \<Longrightarrow> bin i \<notin> seen \<Longrightarrow> \<exists>j \<in> set (first_in_bin bin seen xs). bin j = bin i"
proof (induction xs arbitrary: seen)
  case Nil
  then show ?case by simp
next
  case (Cons a xs)
  show ?case
  proof (cases "bin a = bin i")
    case True
    then show ?thesis using Cons.prems by auto
  next
    case False
    show ?thesis
    proof (cases "bin a \<in> seen")
      case True
      then show ?thesis using Cons False by auto
    next
      case na: False
      have "i \<in> set xs" using Cons.prems False by auto
      moreover have "bin i \<notin> insert (bin a) seen" using Cons.prems False by auto
      ultimately obtain j where "j \<in> set (first_in_bin bin (insert (bin a) seen) xs)" "bin j = bin i"
        using Cons.IH by blast
      then show ?thesis using na by auto
    qed
  qed
qed

lemma first_in_bin_most_critical:
  "sorted_wrt (\<lambda>a b. crit a \<ge> crit b) xs \<Longrightarrow> j \<in> set (first_in_bin bin seen xs) \<Longrightarrow>
   i \<in> set xs \<Longrightarrow> bin i = bin j \<Longrightarrow> (crit i :: 'c :: linorder) \<le> crit j"
proof (induction xs arbitrary: seen)
  case Nil
  then show ?case by simp
next
  case (Cons a xs)
  show ?case
  proof (cases "bin a \<in> seen")
    case True
    with Cons.prems have j: "j \<in> set (first_in_bin bin seen xs)" by simp
    then have "bin j \<notin> seen" by (rule first_in_bin_unseen)
    with True Cons.prems(4) have "i \<noteq> a" by auto
    with Cons.prems(3) have "i \<in> set xs" by simp
    with Cons.IH [OF _ j _ Cons.prems(4)] Cons.prems(1) show ?thesis by simp
  next
    case False
    show ?thesis
    proof (cases "j = a")
      case True
      then show ?thesis using Cons.prems(1,3) by auto
    next
      case ja: False
      with False Cons.prems have j: "j \<in> set (first_in_bin bin (insert (bin a) seen) xs)" by simp
      then have "bin j \<notin> insert (bin a) seen" by (rule first_in_bin_unseen)
      with Cons.prems(4) have "i \<noteq> a" by auto
      with Cons.prems(3) have "i \<in> set xs" by simp
      with Cons.IH [OF _ j _ Cons.prems(4)] Cons.prems(1) show ?thesis by simp
    qed
  qed
qed

lemma first_in_bin_all_seen:
  "\<forall>i \<in> set xs. bin i \<in> seen \<Longrightarrow> first_in_bin bin seen xs = []"
  by (induction xs) auto

lemma sample_targets_first:
  assumes "finite B" "seen \<subseteq> B" "\<forall>b. (samples b \<noteq> NONE) = (b \<in> seen)"
    and "to_find = int (card B) - int (card seen)"
    and "\<forall>i \<in> set xs. i \<noteq> 0 \<and> (\<exists>b \<in> B. sample_bin e bb g n i = Inr b)"
  shows "sample_targets e bb g n xs (samples, to_find) out
         = Inr (out @ first_in_bin (sample_bin e bb g n) (Inr ` seen) xs)"
  using assms
proof (induction xs arbitrary: samples to_find out seen)
  case Nil
  then show ?case by simp
next
  case (Cons i rest)
  from Cons.prems(5) obtain b where b: "b \<in> B" "sample_bin e bb g n i = Inr b" and i0: "i \<noteq> 0"
    by auto
  have rest: "\<forall>i \<in> set rest. i \<noteq> 0 \<and> (\<exists>b \<in> B. sample_bin e bb g n i = Inr b)"
    using Cons.prems(5) by simp
  show ?case
  proof (cases "to_find = 0")
    case True
    then have "card seen = card B" using Cons.prems(4) by simp
    then have "seen = B" using Cons.prems(1,2) by (simp add: card_subset_eq)
    then have "\<forall>j \<in> set (i # rest). sample_bin e bb g n j \<in> Inr ` seen"
      using Cons.prems(5) by auto
    then have "first_in_bin (sample_bin e bb g n) (Inr ` seen) (i # rest) = []"
      by (rule first_in_bin_all_seen)
    then show ?thesis using True by simp
  next
    case False
    show ?thesis
    proof (cases "samples b = NONE")
      case True
      then have nb: "b \<notin> seen" using Cons.prems(3) by blast
      have 1: "insert b seen \<subseteq> B" using b Cons.prems(2) by simp
      have 2: "\<forall>b'. ((samples(b := i)) b' \<noteq> NONE) = (b' \<in> insert b seen)"
        using Cons.prems(3) i0 by (simp add: NONE_def)
      have "finite seen" using Cons.prems(1,2) by (rule rev_finite_subset)
      then have 3: "to_find - 1 = int (card B) - int (card (insert b seen))"
        using nb Cons.prems(4) by simp
      have "sample_targets e bb g n rest (samples(b := i), to_find - 1) (out @ [i])
            = Inr ((out @ [i]) @ first_in_bin (sample_bin e bb g n) (Inr ` insert b seen) rest)"
        by (rule Cons.IH [OF Cons.prems(1) 1 2 3 rest])
      then show ?thesis using False True b nb by (simp add: image_iff)
    next
      case nz: False
      then have "b \<in> seen" using Cons.prems(3) by blast
      moreover have "sample_targets e bb g n rest (samples, to_find) out
            = Inr (out @ first_in_bin (sample_bin e bb g n) (Inr ` seen) rest)"
        by (rule Cons.IH [OF Cons.prems(1-4) rest])
      ultimately show ?thesis using False nz b by simp
    qed
  qed
qed

lemma mark_reached_bins_inv:
  assumes "finite B" "seen \<subseteq> B" "samples = (\<lambda>b. if b \<in> seen then REACHED else NONE)"
    and "to_find = int (card B) - int (card seen)"
    and "\<forall>i \<in> set xs. \<exists>b \<in> B. sample_bin e bb g n i = Inr b"
  shows "(mark_reached_bins e bb g n xs (samples, to_find) = Inr None
          \<and> B \<subseteq> seen \<union> bins_of (sample_bin e bb g n) xs)
       \<or> mark_reached_bins e bb g n xs (samples, to_find)
           = Inr (Some (\<lambda>b. if b \<in> seen \<union> bins_of (sample_bin e bb g n) xs then REACHED else NONE,
                        int (card B) - int (card (seen \<union> bins_of (sample_bin e bb g n) xs))))"
  using assms
proof (induction xs arbitrary: samples to_find seen)
  case Nil
  then show ?case by (simp add: bins_of_def)
next
  case (Cons i rest)
  from Cons.prems(5) obtain b where b: "b \<in> B" "sample_bin e bb g n i = Inr b"
    by auto
  have rest: "\<forall>i \<in> set rest. \<exists>b \<in> B. sample_bin e bb g n i = Inr b"
    using Cons.prems(5) by simp
  have bo: "bins_of (sample_bin e bb g n) (i # rest) = insert b (bins_of (sample_bin e bb g n) rest)"
    using b by (auto simp: bins_of_def)
  show ?case
  proof (cases "to_find = 0")
    case True
    then have "card seen = card B" using Cons.prems(4) by simp
    then have "seen = B" using Cons.prems(1,2) by (simp add: card_subset_eq)
    then show ?thesis using True by auto
  next
    case False
    show ?thesis
    proof (cases "b \<in> seen")
      case True
      then have eq: "seen \<union> bins_of (sample_bin e bb g n) (i # rest)
                   = seen \<union> bins_of (sample_bin e bb g n) rest"
        unfolding bo by auto
      have step: "mark_reached_bins e bb g n (i # rest) (samples, to_find)
            = mark_reached_bins e bb g n rest (samples, to_find)"
        using False True b Cons.prems(3) by simp
      show ?thesis
        unfolding eq step by (rule Cons.IH [OF Cons.prems(1-4) rest])
    next
      case nb: False
      have eq: "seen \<union> bins_of (sample_bin e bb g n) (i # rest)
                   = insert b seen \<union> bins_of (sample_bin e bb g n) rest"
        unfolding bo by auto
      have 1: "insert b seen \<subseteq> B" using b Cons.prems(2) by simp
      have 2: "samples(b := REACHED) = (\<lambda>b'. if b' \<in> insert b seen then REACHED else NONE)"
        unfolding Cons.prems(3) by (rule ext) simp
      have "finite seen" using Cons.prems(1,2) by (rule rev_finite_subset)
      then have 3: "to_find - 1 = int (card B) - int (card (insert b seen))"
        using nb Cons.prems(4) by simp
      have "samples b \<noteq> REACHED"
        using nb Cons.prems(3) by (simp add: REACHED_def NONE_def)
      then have step: "mark_reached_bins e bb g n (i # rest) (samples, to_find)
            = mark_reached_bins e bb g n rest (samples(b := REACHED), to_find - 1)"
        using False b by simp
      show ?thesis
        unfolding eq step by (rule Cons.IH [OF Cons.prems(1) 1 2 3 rest])
    qed
  qed
qed

lemma int_div_less:
  fixes d k b :: int
  assumes "0 < k" "d < b * k"
  shows "d div k < b"
proof (rule ccontr)
  assume "\<not> d div k < b"
  then have "b * k \<le> (d div k) * k"
    using assms(1) by (simp add: mult_right_mono)
  moreover have "d = (d div k) * k + d mod k" by simp
  moreover have "0 \<le> d mod k" using assms(1) by simp
  ultimately show False using assms(2) by linarith
qed

lemma less_bins_times_width:
  fixes W b :: int
  assumes "0 < b"
  shows "W < b * (W div b + 1)"
proof -
  have e1: "b * (W div b) + W mod b = W" by (rule mult_div_mod_eq)
  have e2: "b * (W div b + 1) = b * (W div b) + b" by (simp add: distrib_left)
  have "W mod b < b" using assms by simp
  then show ?thesis unfolding e2 using e1 by linarith
qed

lemma bin_index_in_range:
  fixes W d :: int
  assumes "5 \<le> W" "0 \<le> d" "d < W"
  shows "0 \<le> d div (W div (W div 5) + 1)" "d div (W div (W div 5) + 1) < W div 5"
proof -
  have b: "0 < W div 5" using assms(1) by (simp add: pos_imp_zdiv_pos_iff)
  have "0 \<le> W div (W div 5)" using assms(1) b by (simp add: pos_imp_zdiv_nonneg_iff)
  then have k: "0 < W div (W div 5) + 1" by simp
  show "0 \<le> d div (W div (W div 5) + 1)"
    using assms(2) k by (simp add: pos_imp_zdiv_nonneg_iff)
  have "d < W div 5 * (W div (W div 5) + 1)"
    using less_bins_times_width [OF b, of W] assms(3) by simp
  then show "d div (W div (W div 5) + 1) < W div 5"
    using k by (rule int_div_less [rotated])
qed

lemma sample_bin_inside:
  assumes bx: "5 \<le> xmax bb - xmin bb + 1" "xmax bb - xmin bb < 2 ^ 31 - 1"
    and byy: "5 \<le> ymax bb - ymin bb + 1" "ymax bb - ymin bb < 2 ^ 31 - 1"
    and i: "0 < i" "nat i < length (net_rr_terminals e n)"
    and ins: "inside_bb e (net_rr_terminals e n ! nat i) bb"
  shows "\<exists>b \<in> {0..<bins_x (net_sampling_grid bb)} \<times> {0..<bins_y (net_sampling_grid bb)}.
           sample_bin e bb (net_sampling_grid bb) n i = Inr b"
proof -
  let ?r = "net_rr_terminals e n ! nat i"
  have dx: "0 \<le> node_xlow e ?r - xmin bb" "node_xlow e ?r - xmin bb < xmax bb - xmin bb + 1"
    and dy: "0 \<le> node_ylow e ?r - ymin bb" "node_ylow e ?r - ymin bb < ymax bb - ymin bb + 1"
    using ins by (simp_all add: inside_bb_def)
  have sx: "size_t_of_int (node_xlow e ?r - xmin bb) = node_xlow e ?r - xmin bb"
    and sy: "size_t_of_int (node_ylow e ?r - ymin bb) = node_ylow e ?r - ymin bb"
    using dx dy bx byy by (simp_all add: size_t_of_int_def)
  note rx = bin_index_in_range [OF bx(1) dx]
  note ry = bin_index_in_range [OF byy(1) dy]
  have t: "rr_terminal e n i = Inr ?r"
    using i by (simp add: rr_terminal_def)
  show ?thesis
    using rx ry by (simp add: sample_bin_def t sx sy net_sampling_grid_def Let_def)
qed

lemma image_bins_of:
  fixes bin :: "int \<Rightarrow> failure + int \<times> int"
  assumes "\<forall>i \<in> set xs. \<exists>b. bin i = Inr b"
  shows "Inr ` bins_of bin xs = bin ` set xs"
proof (intro set_eqI iffI)
  fix v :: "failure + int \<times> int"
  assume "v \<in> Inr ` bins_of bin xs"
  then obtain b i where "v = Inr b" "i \<in> set xs" "bin i = Inr b"
    by (auto simp: bins_of_def)
  then show "v \<in> bin ` set xs" by force
next
  fix v :: "failure + int \<times> int"
  assume "v \<in> bin ` set xs"
  then obtain i where i: "i \<in> set xs" "v = bin i" by auto
  with assms obtain b where "bin i = Inr b" by blast
  with i have "b \<in> bins_of bin xs" "v = Inr b" by (auto simp: bins_of_def)
  then show "v \<in> Inr ` bins_of bin xs" by simp
qed

lemma get_decomposition_isinks_first_in_bin:
  assumes tree: "route_trees s n = Some tree"
    and bx: "5 \<le> xmax (route_bb s n) - xmin (route_bb s n) + 1"
            "xmax (route_bb s n) - xmin (route_bb s n) < 2 ^ 31 - 1"
    and byy: "5 \<le> ymax (route_bb s n) - ymin (route_bb s n) + 1"
             "ymax (route_bb s n) - ymin (route_bb s n) < 2 ^ 31 - 1"
    and ok: "\<forall>i \<in> set (reached_isinks tree) \<union> set remaining_targets.
               0 < i \<and> nat i < length (net_rr_terminals e n)
               \<and> inside_bb e (net_rr_terminals e n ! nat i) (route_bb s n)"
  shows "get_decomposition_isinks e s n remaining_targets
         = Inr (first_in_bin (sample_bin e (route_bb s n) (net_sampling_grid (route_bb s n)) n)
                  (sample_bin e (route_bb s n) (net_sampling_grid (route_bb s n)) n
                     ` set (reached_isinks tree))
                  remaining_targets)"
proof -
  let ?bb = "route_bb s n"
  let ?g = "net_sampling_grid ?bb"
  let ?bin = "sample_bin e ?bb ?g n"
  let ?B = "{0..<bins_x ?g} \<times> {0..<bins_y ?g}"
  let ?seen = "bins_of ?bin (reached_isinks tree)"
  define W where "W = xmax ?bb - xmin ?bb + 1"
  define H where "H = ymax ?bb - ymin ?bb + 1"
  have sW: "size_t_of_int W = W" and sH: "size_t_of_int H = H"
    using bx byy by (simp_all add: size_t_of_int_def W_def H_def)
  have pos: "0 < W div 5" "0 < H div 5"
    using bx(1) byy(1) by (simp_all add: pos_imp_zdiv_pos_iff W_def H_def)
  have g: "?g = \<lparr>bins_x = W div 5, bins_y = H div 5,
                   bin_width_x = W div (W div 5) + 1, bin_width_y = H div (H div 5) + 1\<rparr>"
    by (simp add: net_sampling_grid_def W_def H_def)
  have unfold: "get_decomposition_isinks e s n remaining_targets =
      (case mark_reached_bins e ?bb ?g n (reached_isinks tree) (\<lambda>b. NONE, bins_x ?g * bins_y ?g) of
         Inl f \<Rightarrow> Inl f
       | Inr None \<Rightarrow> Inr []
       | Inr (Some st) \<Rightarrow> sample_targets e ?bb ?g n remaining_targets st [])"
    unfolding g get_decomposition_isinks_def tree Let_def MIN_DECOMP_BIN_WIDTH_def
      W_def [symmetric] H_def [symmetric] sW sH
    using pos by simp
  have fin: "finite ?B" by simp
  have card: "bins_x ?g * bins_y ?g = int (card ?B) - int (card ({} :: (int \<times> int) set))"
    using pos by (simp add: g)
  have inB: "\<exists>b \<in> ?B. ?bin i = Inr b" if "i \<in> set (reached_isinks tree) \<union> set remaining_targets" for i
    using sample_bin_inside [OF bx byy, of i e n] ok that by blast
  have reached: "\<forall>i \<in> set (reached_isinks tree). \<exists>b \<in> ?B. ?bin i = Inr b"
    using inB by blast
  have remaining: "\<forall>i \<in> set remaining_targets. i \<noteq> 0 \<and> (\<exists>b \<in> ?B. ?bin i = Inr b)"
    using inB ok by fastforce
  have seenB: "?seen \<subseteq> ?B"
    using reached by (fastforce simp: bins_of_def)
  have img: "Inr ` ?seen = ?bin ` set (reached_isinks tree)"
    using reached by (intro image_bins_of) blast
  have init: "(\<lambda>b. NONE) = (\<lambda>b. if b \<in> ({} :: (int \<times> int) set) then REACHED else NONE)"
    by simp
  from mark_reached_bins_inv [OF fin empty_subsetI init card reached]
  show ?thesis
  proof (elim disjE conjE)
    assume m: "mark_reached_bins e ?bb ?g n (reached_isinks tree) (\<lambda>b. NONE, bins_x ?g * bins_y ?g) = Inr None"
      and all: "?B \<subseteq> {} \<union> ?seen"
    have "\<forall>i \<in> set remaining_targets. ?bin i \<in> ?bin ` set (reached_isinks tree)"
      unfolding img [symmetric] using remaining all by fastforce
    then have "first_in_bin ?bin (?bin ` set (reached_isinks tree)) remaining_targets = []"
      by (rule first_in_bin_all_seen)
    then show ?thesis unfolding unfold m by simp
  next
    assume m: "mark_reached_bins e ?bb ?g n (reached_isinks tree) (\<lambda>b. NONE, bins_x ?g * bins_y ?g)
        = Inr (Some (\<lambda>b. if b \<in> {} \<union> ?seen then REACHED else NONE,
                     int (card ?B) - int (card ({} \<union> ?seen))))"
    have s: "\<forall>b. ((if b \<in> ?seen then REACHED else NONE) \<noteq> NONE) = (b \<in> ?seen)"
      by (simp add: REACHED_def NONE_def)
    have "sample_targets e ?bb ?g n remaining_targets
            (\<lambda>b. if b \<in> ?seen then REACHED else NONE, int (card ?B) - int (card ?seen)) []
          = Inr ([] @ first_in_bin ?bin (Inr ` ?seen) remaining_targets)"
      by (rule sample_targets_first [OF fin seenB s refl remaining])
    then show ?thesis unfolding unfold m img by simp
  qed
qed

text \<open>
  Claim C5: for a net whose bounding box is at least \<open>MIN_DECOMP_BIN_WIDTH = 5\<close> wide and
  tall and holds its sinks, \<^verbatim>\<open>get_decomposition_isinks\<close> returns, of the remaining targets
  in their order, the first one of every bin that holds no reached sink.  So it returns
  at most \<open>bins_x * bins_y\<close> sinks, at most one per bin, none from a bin with a reached
  sink, one from every other bin that holds a remaining target, and, the targets being
  sorted by descending criticality, a most critical one of its bin.
\<close>

theorem skeleton_sinks_per_bin:
  fixes crit :: "int \<Rightarrow> real"
  assumes tree: "route_trees s n = Some tree"
    and bx: "5 \<le> xmax (route_bb s n) - xmin (route_bb s n) + 1"
            "xmax (route_bb s n) - xmin (route_bb s n) < 2 ^ 31 - 1"
    and byy: "5 \<le> ymax (route_bb s n) - ymin (route_bb s n) + 1"
             "ymax (route_bb s n) - ymin (route_bb s n) < 2 ^ 31 - 1"
    and ok: "\<forall>i \<in> set (reached_isinks tree) \<union> set remaining_targets.
               0 < i \<and> nat i < length (net_rr_terminals e n)
               \<and> inside_bb e (net_rr_terminals e n ! nat i) (route_bb s n)"
  defines "bin \<equiv> sample_bin e (route_bb s n) (net_sampling_grid (route_bb s n)) n"
  shows "\<exists>out. get_decomposition_isinks e s n remaining_targets = Inr out
     \<and> out = first_in_bin bin (bin ` set (reached_isinks tree)) remaining_targets
     \<and> int (length out) \<le> bins_x (net_sampling_grid (route_bb s n))
                             * bins_y (net_sampling_grid (route_bb s n))
     \<and> distinct (map bin out)
     \<and> set out \<subseteq> set remaining_targets
     \<and> (\<forall>i \<in> set out. bin i \<notin> bin ` set (reached_isinks tree))
     \<and> (\<forall>i \<in> set remaining_targets. bin i \<notin> bin ` set (reached_isinks tree)
           \<longrightarrow> (\<exists>j \<in> set out. bin j = bin i))
     \<and> (sorted_wrt (\<lambda>a b. crit a \<ge> crit b) remaining_targets
           \<longrightarrow> (\<forall>j \<in> set out. \<forall>i \<in> set remaining_targets. bin i = bin j \<longrightarrow> crit i \<le> crit j))"
proof -
  let ?g = "net_sampling_grid (route_bb s n)"
  let ?B = "{0..<bins_x ?g} \<times> {0..<bins_y ?g}"
  let ?out = "first_in_bin bin (bin ` set (reached_isinks tree)) remaining_targets"
  have eq: "get_decomposition_isinks e s n remaining_targets = Inr ?out"
    unfolding bin_def by (rule get_decomposition_isinks_first_in_bin [OF tree bx byy ok])
  have sub: "set ?out \<subseteq> set remaining_targets"
    by (rule first_in_bin_subset)
  have d: "distinct (map bin ?out)"
    by (rule first_in_bin_distinct)
  have "bin ` set ?out \<subseteq> Inr ` ?B"
  proof
    fix v assume "v \<in> bin ` set ?out"
    then obtain i where i: "i \<in> set ?out" "v = bin i" by auto
    with sub have "i \<in> set (reached_isinks tree) \<union> set remaining_targets" by auto
    with sample_bin_inside [OF bx byy, of i e n] ok
    have "\<exists>b \<in> ?B. bin i = Inr b" unfolding bin_def by blast
    with i show "v \<in> Inr ` ?B" by auto
  qed
  then have "card (bin ` set ?out) \<le> card (Inr ` ?B :: (failure + int \<times> int) set)"
    by (intro card_mono) simp_all
  also have "\<dots> = card ?B"
    by (intro card_image) simp
  finally have "card (set (map bin ?out)) \<le> card ?B" by simp
  then have "length ?out \<le> card ?B"
    using d by (metis distinct_card length_map)
  moreover have "int (card ?B) \<le> bins_x ?g * bins_y ?g"
    using bx(1) byy(1) by (simp add: net_sampling_grid_def pos_imp_zdiv_nonneg_iff)
  ultimately have len: "int (length ?out) \<le> bins_x ?g * bins_y ?g" by linarith
  have un: "\<forall>i \<in> set ?out. bin i \<notin> bin ` set (reached_isinks tree)"
    using first_in_bin_unseen by fast
  have cov: "\<forall>i \<in> set remaining_targets. bin i \<notin> bin ` set (reached_isinks tree)
           \<longrightarrow> (\<exists>j \<in> set ?out. bin j = bin i)"
    using first_in_bin_covers by fast
  have crit: "sorted_wrt (\<lambda>a b. crit a \<ge> crit b) remaining_targets
           \<longrightarrow> (\<forall>j \<in> set ?out. \<forall>i \<in> set remaining_targets. bin i = bin j \<longrightarrow> crit i \<le> crit j)"
    using first_in_bin_most_critical [of crit remaining_targets _ bin "bin ` set (reached_isinks tree)"]
    by blast
  show ?thesis
    using eq len d sub un cov crit by blast
qed

lemma partly_routed_sinks:
  "get_decomposition_isinks demo_env partly_routed_state 0 [1, 2, 3, 4, 5, 6, 8, 9, 10] = Inr [1]"
  by (simp add: decomp_eval_defs partly_routed_state_def demo_env_def demo_state_def)

theorem skeleton_sinks_per_bin_witness:
  "get_decomposition_isinks demo_env partly_routed_state 0 [1, 2, 3, 4, 5, 6, 8, 9, 10] = Inr [1]
   \<and> int (length [1 :: int]) \<le> bins_x (net_sampling_grid (route_bb partly_routed_state 0))
                                 * bins_y (net_sampling_grid (route_bb partly_routed_state 0))
   \<and> sample_bin demo_env (route_bb partly_routed_state 0)
          (net_sampling_grid (route_bb partly_routed_state 0)) 0 1
       \<notin> sample_bin demo_env (route_bb partly_routed_state 0)
            (net_sampling_grid (route_bb partly_routed_state 0)) 0 ` set [7]"
proof -
  let ?tree = "\<lparr>root_inode = 0, reached_isinks = [7], remaining_isinks = [1, 2, 3, 4, 5, 6, 8, 9, 10]\<rparr>"
  have tree: "route_trees partly_routed_state 0 = Some ?tree"
    by (simp add: partly_routed_state_def)
  have bb: "route_bb partly_routed_state 0 = \<lparr>xmin = 0, xmax = 14, ymin = 0, ymax = 14\<rparr>"
    by (simp add: partly_routed_state_def demo_state_def)
  have b: "5 \<le> xmax (route_bb partly_routed_state 0) - xmin (route_bb partly_routed_state 0) + 1"
    "xmax (route_bb partly_routed_state 0) - xmin (route_bb partly_routed_state 0) < 2 ^ 31 - 1"
    "5 \<le> ymax (route_bb partly_routed_state 0) - ymin (route_bb partly_routed_state 0) + 1"
    "ymax (route_bb partly_routed_state 0) - ymin (route_bb partly_routed_state 0) < 2 ^ 31 - 1"
    by (simp_all add: bb)
  have ok: "\<forall>i \<in> set (reached_isinks ?tree) \<union> set [1, 2, 3, 4, 5, 6, 8, 9, 10].
               0 < i \<and> nat i < length (net_rr_terminals demo_env 0)
               \<and> inside_bb demo_env (net_rr_terminals demo_env 0 ! nat i) (route_bb partly_routed_state 0)"
    by (simp add: bb demo_env_def inside_bb_def)
  let ?bin = "sample_bin demo_env (route_bb partly_routed_state 0)
                (net_sampling_grid (route_bb partly_routed_state 0)) 0"
  from skeleton_sinks_per_bin [OF tree b ok, of "\<lambda>_. 1"]
  obtain out where o: "get_decomposition_isinks demo_env partly_routed_state 0 [1, 2, 3, 4, 5, 6, 8, 9, 10] = Inr out"
    "int (length out) \<le> bins_x (net_sampling_grid (route_bb partly_routed_state 0))
                         * bins_y (net_sampling_grid (route_bb partly_routed_state 0))"
    "\<forall>i \<in> set out. ?bin i \<notin> ?bin ` set (reached_isinks ?tree)"
    by blast
  have out: "out = [1]"
    using o(1) partly_routed_sinks by simp
  show ?thesis
    using o(2,3) partly_routed_sinks unfolding out by simp
qed

section \<open>Nets to retry with the full device\<close>

lemma fold_grow_and_cap_keeps:
  "nets_to_retry (fold (grow_and_cap e) ns s) = nets_to_retry s"
  "route_bb s n = full_device_bb e \<Longrightarrow> route_bb (fold (grow_and_cap e) ns s) n = full_device_bb e"
  "decomp_retries s n = MAX_DECOMP_REROUTE \<Longrightarrow>
     decomp_retries (fold (grow_and_cap e) ns s) n = MAX_DECOMP_REROUTE"
  by (induction ns arbitrary: s; simp add: grow_and_cap_def full_device_bb_def)+

lemma fold_grow_and_cap_sets:
  "n \<in> set ns \<Longrightarrow>
     route_bb (fold (grow_and_cap e) ns s) n = full_device_bb e
     \<and> decomp_retries (fold (grow_and_cap e) ns s) n = MAX_DECOMP_REROUTE"
proof (induction ns arbitrary: s)
  case Nil
  then show ?case by simp
next
  case (Cons a ns)
  show ?case
  proof (cases "n = a")
    case True
    have "route_bb (grow_and_cap e a s) a = full_device_bb e"
      "decomp_retries (grow_and_cap e a s) a = MAX_DECOMP_REROUTE"
      by (simp_all add: grow_and_cap_def full_device_bb_def)
    then show ?thesis
      using True by (simp add: fold_grow_and_cap_keeps)
  next
    case False
    then show ?thesis using Cons by simp
  qed
qed

lemma capped_not_decomposed:
  "decomp_retries s n = MAX_DECOMP_REROUTE \<Longrightarrow> should_decompose_net e s n level p axis = Inr False"
  by (simp add: should_decompose_net_def)

lemma build_helper_Some_region:
  "build_helper e s ns x1 y1 x2 y2 = Inr (Some t) \<Longrightarrow> x1 < x2 \<and> y1 < y2"
  by (subst (asm) build_helper.simps) (simp split: if_splits)

lemma full_bb_at_root:
  assumes b: "build_helper e s ns 0 0 (grid_width e) (grid_height e) = Inr (Some t)"
    and n: "n \<in> set ns" and f: "route_bb s n = full_device_bb e"
  shows "n \<in> set (nets t)"
  using b
proof (cases rule: build_helper_Some_cases)
  case leaf
  then show ?thesis using n by (simp add: leaf_node_def)
next
  case (cut ax p l r m lt rt a1 b1 c1 d1 a2 b2 c2 d2)
  note rg = build_helper_Some_region [OF b]
  from chosen_cut_survives [OF cut(1,2) conjunct1 [OF rg] conjunct2 [OF rg]]
  have "(ax = X \<longrightarrow> 0 \<le> p \<and> p < grid_width e) \<and> (ax \<noteq> X \<longrightarrow> 0 \<le> p \<and> p < grid_height e)"
    by auto
  then have "bb_min ax (route_bb s n) \<le> p \<and> p \<le> bb_max ax (route_bb s n)"
    by (auto simp: f full_device_bb_def bb_min_def bb_max_def)
  then have "n \<in> set m"
    using partition_nets_placement(1) [OF cut(3) n] by simp
  then show ?thesis by (simp add: cut(6))
qed

lemma try_parallel_route_net_retries:
  "try_parallel_route_net e n level s = (flags, s') \<Longrightarrow> decomp_retries s' = decomp_retries s"
  by (auto simp: try_parallel_route_net_def Let_def split: if_splits prod.splits)

lemma route_net_here_retries:
  "route_net_here e level n (node, s) = Inr (node', s') \<Longrightarrow> decomp_retries s' = decomp_retries s"
  by (auto simp: route_net_here_def Let_def split: prod.splits if_splits
      dest: try_parallel_route_net_retries)

lemma route_and_decompose_retries:
  "route_and_decompose e n node s = Inr (r, s') \<Longrightarrow>
     decomp_retries s' = (if r = None then decomp_retries s
                          else (decomp_retries s)(n := decomp_retries s n + 1))"
  by (auto simp: route_and_decompose_def Let_def
      split: if_splits prod.splits option.splits sum.splits)

lemma route_node_net_cap:
  assumes c: "decomp_retries s m = MAX_DECOMP_REROUTE"
    and r: "route_node_net e level n (node, s) = Inr (node', s')"
  shows "decomp_retries s' m = MAX_DECOMP_REROUTE"
proof (cases "should_decompose_net e s n level (cutline_pos node) (cutline_axis node) = Inr True")
  case True
  then have "decomp_retries s n < MAX_DECOMP_REROUTE"
    by (auto simp: should_decompose_net_def split: if_splits)
  with c have nm: "n \<noteq> m" by auto
  from r True obtain rr s1 where rd: "route_and_decompose e n node s = Inr (rr, s1)"
    and rest: "(rr \<noteq> None \<and> s' = s1) \<or> (rr = None \<and> route_net_here e level n (node, s1) = Inr (node', s'))"
    by (auto simp: route_node_net_def split: sum.splits option.splits prod.splits)
  have "decomp_retries s1 m = MAX_DECOMP_REROUTE"
    using route_and_decompose_retries [OF rd] c nm by (simp split: if_splits)
  then show ?thesis
    using rest route_net_here_retries by fastforce
next
  case False
  with r have "route_net_here e level n (node, s) = Inr (node', s')"
    by (auto simp: route_node_net_def split: sum.splits)
  then show ?thesis using c route_net_here_retries by fastforce
qed

lemma route_node_nets_cap:
  "decomp_retries s m = MAX_DECOMP_REROUTE \<Longrightarrow>
   route_node_nets e level ns (node, s) = Inr (node', s') \<Longrightarrow>
   decomp_retries s' m = MAX_DECOMP_REROUTE"
proof (induction ns arbitrary: node s)
  case Nil
  then show ?case by simp
next
  case (Cons a ns)
  then show ?case
    by (auto split: sum.splits dest: route_node_net_cap)
qed

lemma route_virtual_net_retries:
  assumes "route_virtual_net e vnet level s = Inr (flags, s')"
  shows "decomp_retries s' = decomp_retries s"
proof -
  let ?s1 = "if budgeting_if_set e
             then s\<lparr>budgeting_should_reroute := (budgeting_should_reroute s)(net_id vnet := False)\<rparr>
             else s"
  have d: "decomp_retries ?s1 = decomp_retries s" by simp
  from assms obtain tree' w' where
    "s' = ?s1\<lparr>route_trees := (route_trees ?s1)(net_id vnet := Some tree'), rr_state := w'\<rparr>"
    unfolding route_virtual_net_def Let_def
    by (simp split: option.splits sum.splits prod.splits del: if_split) blast
  then have "decomp_retries s' = decomp_retries ?s1" by simp
  then show ?thesis using d by simp
qed

lemma route_node_vnets_cap:
  "decomp_retries s m = MAX_DECOMP_REROUTE \<Longrightarrow>
   route_node_vnets e level vs s = Inr s' \<Longrightarrow>
   decomp_retries s' m = MAX_DECOMP_REROUTE"
proof (induction vs arbitrary: s)
  case Nil
  then show ?case by simp
next
  case (Cons v vs)
  from Cons.prems(2) obtain flags s1 where rv: "route_virtual_net e v level s = Inr (flags, s1)"
    by (auto split: sum.splits)
  have c1: "decomp_retries s1 m = MAX_DECOMP_REROUTE"
    using route_virtual_net_retries [OF rv] Cons.prems(1) by simp
  let ?s2 = "if \<not> success flags \<and> \<not> retry_with_full_bb flags
            then s1\<lparr>decomp_retries := (decomp_retries s1)(net_id v := MAX_DECOMP_REROUTE)\<rparr>
            else if retry_with_full_bb flags
            then s1\<lparr>nets_to_retry := nets_to_retry s1 @ [net_id v]\<rparr>
            else s1"
  have c2: "decomp_retries ?s2 m = MAX_DECOMP_REROUTE"
    using c1 by auto
  have "route_node_vnets e level vs ?s2 = Inr s'"
    using Cons.prems(2) rv by simp
  then show ?case
    by (rule Cons.IH [OF c2])
qed

lemma route_node_cap:
  assumes c: "decomp_retries s m = MAX_DECOMP_REROUTE"
    and r: "route_node e level node s = Inr (node', s')"
  shows "decomp_retries s' m = MAX_DECOMP_REROUTE"
proof -
  let ?node0 = "set_rerouted_nets [] (set_is_routable True
                   (set_nets (sort_key (\<lambda>n. - int (net_num_sinks e n)) (nets node)) node))"
  from r obtain s1 where a: "route_node_nets e level (nets ?node0) (?node0, s) = Inr (node', s1)"
    and b: "route_node_vnets e level (virtual_nets node') s1 = Inr s'"
    unfolding route_node_def Let_def by (simp split: sum.splits prod.splits)
  have "decomp_retries s1 m = MAX_DECOMP_REROUTE"
    by (rule route_node_nets_cap [OF c a])
  then show ?thesis
    by (rule route_node_vnets_cap [OF _ b])
qed

lemma helper_cap:
  "decomp_retries s m = MAX_DECOMP_REROUTE \<Longrightarrow>
   decompose_route_partition_tree_helper e node level s = Inr (node', s') \<Longrightarrow>
   decomp_retries s' m = MAX_DECOMP_REROUTE"
proof (induction "node_count node" arbitrary: node level s node' s' rule: less_induct)
  case less
  from less.prems(2) obtain node1 s1 where rn: "route_node e level node s = Inr (node1, s1)"
    by (subst (asm) decompose_route_partition_tree_helper.simps) (auto split: sum.splits)
  have c1: "decomp_retries s1 m = MAX_DECOMP_REROUTE"
    by (rule route_node_cap [OF less.prems(1) rn])
  have cnt: "node_count node1 = node_count node"
    by (rule route_node_count [OF rn])
  show ?case
  proof (cases "left node1")
    case None
    with less.prems(2) rn have "s' = s1"
      by (subst (asm) decompose_route_partition_tree_helper.simps)
         (auto split: sum.splits option.splits)
    then show ?thesis using c1 by simp
  next
    case (Some lc)
    with less.prems(2) rn obtain rc lc' s2 where rc: "right node1 = Some rc"
      and hl: "decompose_route_partition_tree_helper e lc (level + 1) s1 = Inr (lc', s2)"
      and hr: "\<exists>rc'. decompose_route_partition_tree_helper e rc (level + 1) s2 = Inr (rc', s')"
      by (subst (asm) decompose_route_partition_tree_helper.simps)
         (auto split: sum.splits option.splits)
    have "node_count lc < node_count node" "node_count rc < node_count node"
      using node_count_child [of node1] Some rc cnt by auto
    then show ?thesis
      using less.hyps hl hr c1 by blast
  qed
qed

lemma dispatcher_cap:
  assumes "decomp_retries s m = MAX_DECOMP_REROUTE"
    and "decompose_route_partition_tree e tree s = Inr (out, rt', s')"
  shows "decomp_retries s' m = MAX_DECOMP_REROUTE"
proof -
  from assms(2) obtain rt s1 where h: "decompose_route_partition_tree_helper e rt 0 (s\<lparr>nets_to_retry := []\<rparr>) = Inr (rt', s1)"
    and s': "s' = fold (grow_and_cap e) (nets_to_retry s1) s1"
    by (auto simp: decompose_route_partition_tree_def split: option.splits sum.splits)
  have "decomp_retries s1 m = MAX_DECOMP_REROUTE"
    using helper_cap [OF _ h] assms(1) by simp
  then show ?thesis by (simp add: s' fold_grow_and_cap_keeps)
qed

lemma capped_routed_here:
  "decomp_retries s n = MAX_DECOMP_REROUTE \<Longrightarrow>
     route_node_net e level n (node, s) = route_net_here e level n (node, s)"
  by (simp add: route_node_net_def capped_not_decomposed)

text \<open>
  Claim C4: when \<^verbatim>\<open>decompose_route_partition_tree\<close> has returned, every net in the
  iteration's \<open>nets_to_retry\<close> collection has the full device as its bounding box and
  \<open>MAX_DECOMP_REROUTE = 5\<close> as its retry counter.  Hence \<^verbatim>\<open>should_decompose_net\<close> refuses
  it at every level and cutline; a partition tree built from that state holds the net at
  its root; the dispatcher's loop body routes the net at its node without decomposing it;
  and a later run of the dispatcher leaves the counter at 5.
\<close>

theorem retry_nets_grown_and_capped:
  assumes "decompose_route_partition_tree e tree s = Inr (out, rt', s')"
    and "n \<in> set (nets_to_retry s')"
  shows "route_bb s' n = \<lparr>xmin = 0, xmax = grid_width e - 1, ymin = 0, ymax = grid_height e - 1\<rparr>
       \<and> decomp_retries s' n = 5
       \<and> should_decompose_net e s' n level p axis = Inr False
       \<and> (\<forall>t. PartitionTree e s' = Inr (Some t) \<longrightarrow> n \<in> set (netlist_nets e) \<longrightarrow> n \<in> set (nets t))
       \<and> route_node_net e level n (node, s') = route_net_here e level n (node, s')
       \<and> (\<forall>tree2 out2 rt2 s2. decompose_route_partition_tree e tree2 s' = Inr (out2, rt2, s2)
             \<longrightarrow> decomp_retries s2 n = 5)"
proof -
  from assms(1) obtain s1 where s': "s' = fold (grow_and_cap e) (nets_to_retry s1) s1"
    by (auto simp: decompose_route_partition_tree_def split: option.splits sum.splits)
  have "n \<in> set (nets_to_retry s1)"
    using assms(2) by (simp add: s' fold_grow_and_cap_keeps)
  from fold_grow_and_cap_sets [OF this, of e s1]
  have bb: "route_bb s' n = full_device_bb e" and cap: "decomp_retries s' n = MAX_DECOMP_REROUTE"
    by (simp_all add: s')
  have root: "\<forall>t. PartitionTree e s' = Inr (Some t) \<longrightarrow> n \<in> set (netlist_nets e) \<longrightarrow> n \<in> set (nets t)"
    using full_bb_at_root [OF _ _ bb] by (simp add: PartitionTree_def)
  have here: "route_node_net e level n (node, s') = route_net_here e level n (node, s')"
    by (rule capped_routed_here [OF cap])
  have later: "\<forall>tree2 out2 rt2 s2. decompose_route_partition_tree e tree2 s' = Inr (out2, rt2, s2)
             \<longrightarrow> decomp_retries s2 n = 5"
    using dispatcher_cap [OF cap, unfolded MAX_DECOMP_REROUTE_def] by blast
  show ?thesis
    using bb cap capped_not_decomposed [OF cap, of e level p axis] root here later
    by (simp add: full_device_bb_def MAX_DECOMP_REROUTE_def)
qed

lemma retry_run:
  "decompose_route_partition_tree retry_env (Some (leaf_node [0])) small_state
   = Inr (\<lparr>res_is_routable = True, res_rerouted_nets = [0]\<rparr>,
          PartitionTreeNode [0] None None True [0] X (- 1) [],
          small_state\<lparr>route_bb := (route_bb small_state)(0 := \<lparr>xmin = 0, xmax = 14, ymin = 0, ymax = 14\<rparr>),
                      decomp_retries := (decomp_retries small_state)(0 := 5),
                      nets_to_retry := [0]\<rparr>)"
  by (simp add: eval_defs retry_env_def small_state_def demo_env_def demo_state_def)

lemma retry_next_tree:
  "PartitionTree retry_env
     (small_state\<lparr>route_bb := (route_bb small_state)(0 := \<lparr>xmin = 0, xmax = 14, ymin = 0, ymax = 14\<rparr>),
                  decomp_retries := (decomp_retries small_state)(0 := 5),
                  nets_to_retry := [0]\<rparr>)
   = Inr (Some (leaf_node [0]))"
  by code_simp

lemma retry_second_run:
  "\<exists>out rt s2. decompose_route_partition_tree retry_env (Some (leaf_node [0]))
     (small_state\<lparr>route_bb := (route_bb small_state)(0 := \<lparr>xmin = 0, xmax = 14, ymin = 0, ymax = 14\<rparr>),
                  decomp_retries := (decomp_retries small_state)(0 := 5),
                  nets_to_retry := [0]\<rparr>) = Inr (out, rt, s2)"
  by (simp add: eval_defs retry_env_def small_state_def demo_env_def demo_state_def)

theorem retry_nets_grown_and_capped_witness:
  "\<exists>out rt' s'. decompose_route_partition_tree retry_env (Some (leaf_node [0])) small_state
                   = Inr (out, rt', s')
     \<and> 0 \<in> set (nets_to_retry s')
     \<and> route_bb small_state 0 = \<lparr>xmin = 2, xmax = 8, ymin = 2, ymax = 8\<rparr>
     \<and> route_bb s' 0 = \<lparr>xmin = 0, xmax = 14, ymin = 0, ymax = 14\<rparr>
     \<and> decomp_retries s' 0 = 5
     \<and> should_decompose_net retry_env s' 0 0 7 X = Inr False
     \<and> PartitionTree retry_env s' = Inr (Some (leaf_node [0]))
     \<and> 0 \<in> set (nets (leaf_node [0]))
     \<and> route_node_net retry_env 0 0 (leaf_node [0], s') = route_net_here retry_env 0 0 (leaf_node [0], s')
     \<and> (\<exists>out2 rt2 s2. decompose_route_partition_tree retry_env (Some (leaf_node [0])) s'
                          = Inr (out2, rt2, s2)
            \<and> decomp_retries s2 0 = 5)"
proof -
  let ?s' = "small_state\<lparr>route_bb := (route_bb small_state)(0 := \<lparr>xmin = 0, xmax = 14, ymin = 0, ymax = 14\<rparr>),
                      decomp_retries := (decomp_retries small_state)(0 := 5),
                      nets_to_retry := [0]\<rparr>"
  have m: "0 \<in> set (nets_to_retry ?s')" by simp
  have nl: "0 \<in> set (netlist_nets retry_env)"
    by (simp add: retry_env_def demo_env_def)
  note t = retry_nets_grown_and_capped [OF retry_run m, of 0 7 X "leaf_node [0]"]
  have a: "route_bb ?s' 0 = \<lparr>xmin = 0, xmax = 14, ymin = 0, ymax = 14\<rparr>"
    "decomp_retries ?s' 0 = 5" "should_decompose_net retry_env ?s' 0 0 7 X = Inr False"
    using t by (simp_all add: retry_env_def demo_env_def)
  have r: "0 \<in> set (nets (leaf_node [0]))"
    using t retry_next_tree nl by blast
  have h: "route_node_net retry_env 0 0 (leaf_node [0], ?s') = route_net_here retry_env 0 0 (leaf_node [0], ?s')"
    using t by blast
  have l: "\<exists>out2 rt2 s2. decompose_route_partition_tree retry_env (Some (leaf_node [0])) ?s'
                          = Inr (out2, rt2, s2) \<and> decomp_retries s2 0 = 5"
    using t retry_second_run by blast
  have sb: "route_bb small_state 0 = \<lparr>xmin = 2, xmax = 8, ymin = 2, ymax = 8\<rparr>"
    by (simp add: small_state_def)
  show ?thesis
    using retry_run m sb a r retry_next_tree h l by blast
qed

end
